theory Spec2Isabelle
  imports Main
begin

section \<open>JSON documents and the JavaScript operators the handlers use\<close>

text \<open>
  Step descriptors, permission entries and stored configuration values are untyped JSON
  in the source (\<^verbatim>\<open>[key: string]: any\<close>). A JSON object is an association list in
  insertion order with first-binding lookup; numbers are restricted to integers. A
  property read that yields JavaScript's \<^verbatim>\<open>undefined\<close> is \<open>None\<close>.
\<close>

datatype json =
    JNull
  | JBool bool
  | JNum int
  | JStr string
  | JArr "json list"
  | JObj "(string \<times> json) list"

text \<open>JavaScript truthiness: \<^verbatim>\<open>undefined\<close>, \<^verbatim>\<open>null\<close>, \<^verbatim>\<open>false\<close>, \<^verbatim>\<open>0\<close> and
  \<^verbatim>\<open>""\<close> are falsy, everything else (also empty arrays and objects) is truthy.\<close>

fun truthy :: "json option \<Rightarrow> bool" where
  "truthy None = False"
| "truthy (Some JNull) = False"
| "truthy (Some (JBool b)) = b"
| "truthy (Some (JNum n)) = (n \<noteq> 0)"
| "truthy (Some (JStr s)) = (s \<noteq> [])"
| "truthy (Some (JArr xs)) = True"
| "truthy (Some (JObj kvs)) = True"

text \<open>\<^verbatim>\<open>v.k\<close> on a value that is neither \<^verbatim>\<open>null\<close> nor \<^verbatim>\<open>undefined\<close>: only objects
  carry the property names the handlers read.\<close>

fun get_prop :: "json \<Rightarrow> string \<Rightarrow> json option" where
  "get_prop (JObj kvs) k = map_of kvs k"
| "get_prop v k = None"

text \<open>\<^verbatim>\<open>a || b\<close>.\<close>

definition js_or :: "json option \<Rightarrow> json option \<Rightarrow> json option" where
  "js_or a b = (if truthy a then a else b)"

text \<open>\<^verbatim>\<open>typeof v === "string"\<close>.\<close>

fun is_string :: "json option \<Rightarrow> bool" where
  "is_string (Some (JStr s)) = True"
| "is_string v = False"

text \<open>\<^verbatim>\<open>v === s\<close> for a string \<open>s\<close>: strict equality, no coercion.\<close>

fun strict_eq_str :: "json option \<Rightarrow> string \<Rightarrow> bool" where
  "strict_eq_str (Some (JStr t)) s = (t = s)"
| "strict_eq_str v s = False"

text \<open>\<^verbatim>\<open>String.prototype.toLowerCase\<close> on the ASCII letters; other characters are
  kept as they are.\<close>

definition lower_char :: "char \<Rightarrow> char" where
  "lower_char c =
     (let n = (of_char c :: nat) in if 65 \<le> n \<and> n \<le> 90 then char_of (n + 32) else c)"

definition toLowerCase :: "string \<Rightarrow> string" where
  "toLowerCase s = map lower_char s"

section \<open>create\_model: field-type normalisation\<close>

text \<open>
  Lines 137--146 (validation) and 176--185 (stored fields) of the step handlers run the
  same sequence: lowercase, then five independent \<^verbatim>\<open>if\<close> statements, each testing
  the value left by the previous one.
\<close>

definition normalizeTypeString :: "string \<Rightarrow> string" where
  "normalizeTypeString s =
     (let t0 = toLowerCase s;
          t1 = (if t0 = ''string'' then ''text'' else t0);
          t2 = (if t1 = ''integer'' then ''number'' else t1);
          t3 = (if t2 = ''datetime'' then ''timestamptz'' else t2);
          t4 = (if t3 = ''reference'' then ''uuid'' else t3);
          t5 = (if t4 = ''authentication'' then ''jsonb'' else t4)
      in t5)"

text \<open>The guard \<^verbatim>\<open>if (fieldType && typeof fieldType === "string")\<close>: only a non-empty
  string is normalised, any other value of \<^verbatim>\<open>field.type\<close> is passed on unchanged.\<close>

fun normalizeFieldType :: "json option \<Rightarrow> json option" where
  "normalizeFieldType (Some (JStr s)) =
     (if s \<noteq> [] then Some (JStr (normalizeTypeString s)) else Some (JStr s))"
| "normalizeFieldType v = v"

definition normalizedValidTypes :: "string list" where
  "normalizedValidTypes =
     [''text'', ''number'', ''boolean'', ''date'', ''timestamptz'', ''uuid'', ''jsonb'',
      ''array'', ''object'']"

text \<open>\<^verbatim>\<open>normalizedValidTypes.includes(fieldType)\<close> for an arbitrary value: the array
  holds strings only, so only an equal string is included.\<close>

fun includes_str :: "string list \<Rightarrow> json option \<Rightarrow> bool" where
  "includes_str xs (Some (JStr s)) = (s \<in> set xs)"
| "includes_str xs v = False"

text \<open>The negation of the rejecting test
  \<^verbatim>\<open>!fieldType || !normalizedValidTypes.includes(fieldType)\<close>, on the normalised value.\<close>

definition fieldTypeAccepted :: "json option \<Rightarrow> bool" where
  "fieldTypeAccepted ty =
     (let fieldType = normalizeFieldType ty
      in \<not> (\<not> truthy fieldType \<or> \<not> includes_str normalizedValidTypes fieldType))"

section \<open>More JavaScript operators\<close>

text \<open>\<^verbatim>\<open>a && b\<close>, with \<open>b\<close> already evaluated (the handlers only read properties of
  a truthy \<open>a\<close> on the right-hand side).\<close>

definition js_and :: "json option \<Rightarrow> json option \<Rightarrow> json option" where
  "js_and a b = (if truthy a then b else a)"

text \<open>\<^verbatim>\<open>a.k\<close> where the guard before it has established that \<open>a\<close> is truthy.\<close>

fun opt_prop :: "json option \<Rightarrow> string \<Rightarrow> json option" where
  "opt_prop (Some v) k = get_prop v k"
| "opt_prop None k = None"

fun str_of :: "json option \<Rightarrow> string" where
  "str_of (Some (JStr s)) = s"
| "str_of v = []"

text \<open>\<^verbatim>\<open>a === b\<close> between a stored value and a value of the incoming step: primitives
  compare by value, two arrays or objects are distinct references.\<close>

definition js_strict_eq :: "json option \<Rightarrow> json option \<Rightarrow> bool" where
  "js_strict_eq a b =
     (case (a, b) of
        (None, None) \<Rightarrow> True
      | (Some JNull, Some JNull) \<Rightarrow> True
      | (Some (JBool x), Some (JBool y)) \<Rightarrow> x = y
      | (Some (JNum x), Some (JNum y)) \<Rightarrow> x = y
      | (Some (JStr x), Some (JStr y)) \<Rightarrow> x = y
      | _ \<Rightarrow> False)"

text \<open>Assigning a property of an object literal or through spread: an existing key keeps
  its position and takes the new value, a new key is appended.\<close>

fun obj_set :: "(string \<times> json) list \<Rightarrow> string \<Rightarrow> json \<Rightarrow> (string \<times> json) list" where
  "obj_set [] k v = [(k, v)]"
| "obj_set ((k', v') # kvs) k v = (if k' = k then (k, v) # kvs else (k', v') # obj_set kvs k v)"

text \<open>Decimal digits of a number, for template strings and for filter values.\<close>

fun show_nat :: "nat \<Rightarrow> string" where
  "show_nat n =
     (if n < 10 then [char_of (48 + n)] else show_nat (n div 10) @ [char_of (48 + n mod 10)])"

declare show_nat.simps [simp del]

definition show_int :: "int \<Rightarrow> string" where
  "show_int i = (if i < 0 then CHR ''-'' # show_nat (nat (- i)) else show_nat (nat i))"

text \<open>The own enumerable properties that \<^verbatim>\<open>{...v}\<close> copies: the entries of an object,
  the indexed elements of an array, the indexed characters of a string, nothing for any
  other value.\<close>

fun indexed :: "nat \<Rightarrow> json list \<Rightarrow> (string \<times> json) list" where
  "indexed i [] = []"
| "indexed i (x # xs) = (show_nat i, x) # indexed (Suc i) xs"

fun spread_entries :: "json option \<Rightarrow> (string \<times> json) list" where
  "spread_entries (Some (JObj kvs)) = kvs"
| "spread_entries (Some (JArr xs)) = indexed 0 xs"
| "spread_entries (Some (JStr s)) = indexed 0 (map (\<lambda>c. JStr [c]) s)"
| "spread_entries v = []"

definition spread_into :: "(string \<times> json) list \<Rightarrow> json option \<Rightarrow> (string \<times> json) list" where
  "spread_into obj v = fold (\<lambda>(k, x) acc. obj_set acc k x) (spread_entries v) obj"

text \<open>\<^verbatim>\<open>...(c && {k: x})\<close> inside an object literal: the key is added when \<open>c\<close> is truthy.\<close>

definition spread_if :: "bool \<Rightarrow> string \<Rightarrow> json option \<Rightarrow> (string \<times> json) list" where
  "spread_if c k x = (case x of Some v \<Rightarrow> (if c then [(k, v)] else []) | None \<Rightarrow> [])"

text \<open>The template-string coercion \<^verbatim>\<open>`${v}`\<close>, which the storage client applies to
  the value of an \<^verbatim>\<open>.eq(column, v)\<close> filter.\<close>

fun intercalate :: "string \<Rightarrow> string list \<Rightarrow> string" where
  "intercalate sep [] = []"
| "intercalate sep [x] = x"
| "intercalate sep (x # y # ys) = x @ sep @ intercalate sep (y # ys)"

fun js_to_string :: "json \<Rightarrow> string" where
  "js_to_string JNull = ''null''"
| "js_to_string (JBool b) = (if b then ''true'' else ''false'')"
| "js_to_string (JNum n) = show_int n"
| "js_to_string (JStr s) = s"
| "js_to_string (JArr xs) =
     intercalate '','' (map (\<lambda>x. if x = JNull then [] else js_to_string x) xs)"
| "js_to_string (JObj kvs) = ''[object Object]''"

text \<open>The only exception the handlers can raise implicitly: reading or writing a property
  of \<^verbatim>\<open>null\<close>, writing a property of a primitive (the modules are strict), calling
  a missing method, or spreading a value that is not iterable.\<close>

datatype js_exception = TypeError

section \<open>Storage\<close>

text \<open>
  Row identifiers are UUIDs in the database; they are natural numbers here, and a nullable
  UUID is an \<open>option\<close>. Every table is the list of its rows in scan order. Storage calls are
  modelled as reliable: the only failures are the ones the data decides (no row, several
  rows, zero rows updated, a violated unique constraint).
\<close>

type_synonym uuid = nat

datatype status = Pending | Processing | Applied | Failed

datatype db_error = UniqueViolation

text \<open>\<^verbatim>\<open>.single()\<close>: the row when exactly one row matches, an error otherwise.\<close>

fun single :: "'a list \<Rightarrow> 'a option" where
  "single [x] = Some x"
| "single xs = None"

text \<open>\<^verbatim>\<open>buildr_app_spec\<close>, with \<^verbatim>\<open>unique(app_id, config_type, config_key)\<close>. The step
  handlers file data models under \<^verbatim>\<open>architecture\<close>, pages and components under
  \<^verbatim>\<open>ui\<close> and the rule set under \<^verbatim>\<open>permissions\<close>.\<close>

record spec_row =
  spec_app_id :: uuid
  config_type :: string
  config_key :: string
  config_value :: json
  spec_user_id :: "uuid option"
  spec_build_request_id :: "uuid option"

definition spec_select :: "uuid \<Rightarrow> string \<Rightarrow> string \<Rightarrow> spec_row list \<Rightarrow> spec_row list" where
  "spec_select appId ty k spec =
     filter (\<lambda>r. spec_app_id r = appId \<and> config_type r = ty \<and> config_key r = k) spec"

definition spec_insert :: "spec_row \<Rightarrow> spec_row list \<Rightarrow> db_error + spec_row list" where
  "spec_insert r spec =
     (if spec_select (spec_app_id r) (config_type r) (config_key r) spec \<noteq> []
      then Inl UniqueViolation else Inr (spec @ [r]))"

text \<open>\<^verbatim>\<open>.upsert(row, { onConflict: "app_id,config_type,config_key" })\<close>: on conflict the
  columns present in the payload are overwritten; \<^verbatim>\<open>user_id\<close> and
  \<^verbatim>\<open>build_request_id\<close> are in the payload only when they were given.\<close>

definition upsert_merge :: "spec_row \<Rightarrow> spec_row \<Rightarrow> spec_row" where
  "upsert_merge r old =
     old\<lparr>config_value := config_value r,
         spec_user_id := (case spec_user_id r of None \<Rightarrow> spec_user_id old | Some u \<Rightarrow> Some u),
         spec_build_request_id :=
           (case spec_build_request_id r of None \<Rightarrow> spec_build_request_id old | Some b \<Rightarrow> Some b)\<rparr>"

definition spec_upsert :: "spec_row \<Rightarrow> spec_row list \<Rightarrow> spec_row list" where
  "spec_upsert r spec =
     (if spec_select (spec_app_id r) (config_type r) (config_key r) spec \<noteq> []
      then map (\<lambda>old. if spec_app_id old = spec_app_id r \<and> config_type old = config_type r
                          \<and> config_key old = config_key r
                       then upsert_merge r old else old) spec
      else spec @ [r])"

definition spec_update_value :: "uuid \<Rightarrow> string \<Rightarrow> string \<Rightarrow> json \<Rightarrow> spec_row list \<Rightarrow> spec_row list" where
  "spec_update_value appId ty k v spec =
     map (\<lambda>r. if spec_app_id r = appId \<and> config_type r = ty \<and> config_key r = k
               then r\<lparr>config_value := v\<rparr> else r) spec"

section \<open>Step handlers\<close>

datatype step_error =
    UnknownStepType "json option"
  | CreateModelMissingName json
  | CreateModelMissingFields
  | FieldMissingName json
  | InvalidFieldType "json option" "json option"
  | ModelAlreadyExists string
  | FailedToCreateModel db_error
  | CreateModelError js_exception
  | CreatePageMissingSlug
  | PageAlreadyExists "json option"
  | LayoutDoesNotExist json
  | FailedToCreatePage db_error
  | CreatePageError js_exception
  | CreateComponentMissingName
  | CreateComponentMissingType
  | PageDoesNotExist json
  | CreateComponentError js_exception
  | SetPermissionsMissingPermissions json
  | PermissionMissingResource json
  | InvalidAction "json option"
  | InvalidRole "json option"
  | SetPermissionsError js_exception

text \<open>\<^verbatim>\<open>StepResult = { success, error?, data? }\<close>.\<close>

datatype StepResult = Success json | Failure step_error

fun success :: "StepResult \<Rightarrow> bool" where
  "success (Success d) = True"
| "success (Failure e) = False"

definition mk_spec_row ::
  "uuid \<Rightarrow> string \<Rightarrow> string \<Rightarrow> json \<Rightarrow> uuid option \<Rightarrow> uuid option \<Rightarrow> spec_row" where
  "mk_spec_row appId ty k v userId buildRequestId =
     \<lparr>spec_app_id = appId, config_type = ty, config_key = k, config_value = v,
      spec_user_id = userId, spec_build_request_id = buildRequestId\<rparr>"

subsection \<open>create\_model\<close>

text \<open>The validation loop over \<^verbatim>\<open>fields\<close>; the first offending field decides.\<close>

fun validateFields :: "json list \<Rightarrow> step_error option" where
  "validateFields [] = None"
| "validateFields (field # rest) =
     (if field = JNull then Some (CreateModelError TypeError)
      else if \<not> truthy (get_prop field ''name'') \<or> \<not> is_string (get_prop field ''name'')
      then Some (FieldMissingName field)
      else if \<not> fieldTypeAccepted (get_prop field ''type'')
      then Some (InvalidFieldType (get_prop field ''type'')
                   (normalizeFieldType (get_prop field ''type'')))
      else validateFields rest)"

text \<open>\<^verbatim>\<open>{ ...field, type }\<close>, then the relation is written back when present.\<close>

definition normalizeField :: "json \<Rightarrow> json" where
  "normalizeField field =
     (let normalizedField =
            (case normalizeFieldType (get_prop field ''type'') of
               Some ty \<Rightarrow> obj_set (spread_entries (Some field)) ''type'' ty
             | None \<Rightarrow> spread_entries (Some field))
      in case get_prop field ''relation'' of
           Some rel \<Rightarrow>
             (if truthy (Some rel) then JObj (obj_set normalizedField ''relation'' rel)
              else JObj normalizedField)
         | None \<Rightarrow> JObj normalizedField)"

definition handleCreateModel ::
  "uuid \<Rightarrow> json \<Rightarrow> uuid option \<Rightarrow> uuid option \<Rightarrow> spec_row list \<Rightarrow> StepResult \<times> spec_row list" where
  "handleCreateModel appId step buildRequestId userId spec =
     (let modelName = js_or (get_prop step ''name'') (get_prop step ''target'')
      in if \<not> truthy modelName \<or> \<not> is_string modelName
         then (Failure (CreateModelMissingName step), spec)
         else
           (let fieldsv =
                  js_or (js_or (get_prop step ''fields'')
                               (js_and (get_prop step ''details'')
                                       (opt_prop (get_prop step ''details'') ''fields'')))
                        (Some (JArr []))
            in case fieldsv of
                 Some (JArr fs) \<Rightarrow>
                   (if fs = [] then (Failure CreateModelMissingFields, spec)
                    else case validateFields fs of
                           Some e \<Rightarrow> (Failure e, spec)
                         | None \<Rightarrow>
                             (case single (spec_select appId ''architecture'' (str_of modelName) spec) of
                                Some existingModel \<Rightarrow>
                                  (Failure (ModelAlreadyExists (str_of modelName)), spec)
                              | None \<Rightarrow>
                                  (let normalizedFields = map normalizeField fs;
                                       modelConfig =
                                         JObj ([(''name'', JStr (str_of modelName)),
                                                (''fields'', JArr normalizedFields)]
                                               @ spread_if (truthy (get_prop step ''metadata''))
                                                   ''metadata'' (get_prop step ''metadata'')
                                               @ spread_if
                                                   (truthy (get_prop step ''details'') \<and>
                                                    truthy (opt_prop (get_prop step ''details'') ''description''))
                                                   ''description''
                                                   (opt_prop (get_prop step ''details'') ''description''));
                                       insertData =
                                         mk_spec_row appId ''architecture'' (str_of modelName)
                                           modelConfig userId buildRequestId
                                   in case spec_insert insertData spec of
                                        Inl insertError \<Rightarrow> (Failure (FailedToCreateModel insertError), spec)
                                      | Inr spec' \<Rightarrow>
                                          (Success (JObj [(''modelName'', JStr (str_of modelName)),
                                                          (''fields'', JNum (int (length normalizedFields)))]),
                                           spec'))))
               | _ \<Rightarrow> (Failure CreateModelMissingFields, spec)))"

subsection \<open>create\_page\<close>

text \<open>\<^verbatim>\<open>pageConfig.metadata.sections = step.details.sections\<close>: an object takes the
  property, an array takes it but loses it when the value is serialised, a primitive
  raises.\<close>

fun set_sections :: "json \<Rightarrow> json \<Rightarrow> js_exception + json" where
  "set_sections (JObj kvs) secs = Inr (JObj (obj_set kvs ''sections'' secs))"
| "set_sections (JArr xs) secs = Inr (JArr xs)"
| "set_sections v secs = Inl TypeError"

definition pageDetails :: "json \<Rightarrow> (string \<times> json) list \<Rightarrow> js_exception + (string \<times> json) list" where
  "pageDetails step pageConfig =
     (case get_prop step ''details'' of
        None \<Rightarrow> Inr pageConfig
      | Some details \<Rightarrow>
          (if \<not> truthy (Some details) then Inr pageConfig
           else
             (let withDetails = obj_set pageConfig ''details'' details
              in case get_prop details ''sections'' of
                   Some (JArr secs) \<Rightarrow>
                     (if \<not> truthy (map_of withDetails ''metadata'')
                      then Inr (obj_set withDetails ''metadata'' (JObj [(''sections'', JArr secs)]))
                      else case set_sections (the (map_of withDetails ''metadata'')) (JArr secs) of
                             Inl e \<Rightarrow> Inl e
                           | Inr m \<Rightarrow> Inr (obj_set withDetails ''metadata'' m))
                 | _ \<Rightarrow> Inr withDetails)))"

definition handleCreatePage ::
  "uuid \<Rightarrow> json \<Rightarrow> uuid option \<Rightarrow> uuid option \<Rightarrow> spec_row list \<Rightarrow> StepResult \<times> spec_row list" where
  "handleCreatePage appId step buildRequestId userId spec =
     (let slug = js_or (get_prop step ''slug'') (get_prop step ''target'')
      in if \<not> truthy slug \<or> \<not> is_string slug then (Failure CreatePageMissingSlug, spec)
         else if single (spec_select appId ''ui'' (str_of slug) spec) \<noteq> None
         then (Failure (PageAlreadyExists (get_prop step ''slug'')), spec)
         else if truthy (get_prop step ''layout'') \<and>
                 single (spec_select appId ''ui'' (js_to_string (the (get_prop step ''layout''))) spec) = None
         then (Failure (LayoutDoesNotExist (the (get_prop step ''layout''))), spec)
         else
           (let pageConfig0 =
                  [(''slug'', the slug),
                   (''title'', the (js_or (get_prop step ''title'') slug))]
                  @ spread_if (truthy (get_prop step ''layout'')) ''layout'' (get_prop step ''layout'')
                  @ [(''components'', the (js_or (get_prop step ''components'') (Some (JArr []))))]
                  @ spread_if (truthy (get_prop step ''metadata'')) ''metadata'' (get_prop step ''metadata'')
            in case pageDetails step pageConfig0 of
                 Inl e \<Rightarrow> (Failure (CreatePageError e), spec)
               | Inr pageConfig \<Rightarrow>
                   (case spec_insert
                           (mk_spec_row appId ''ui'' (str_of slug) (JObj pageConfig) userId buildRequestId)
                           spec of
                      Inl insertError \<Rightarrow> (Failure (FailedToCreatePage insertError), spec)
                    | Inr spec' \<Rightarrow>
                        (Success (JObj [(''slug'', the slug),
                                        (''title'', the (map_of pageConfig ''title''))]),
                         spec'))))"

subsection \<open>create\_component\<close>

text \<open>The second mutation of the step: \<^verbatim>\<open>pageValue.components.push(instance)\<close> on the
  stored page value, creating the array when the property is falsy.\<close>

fun pushComponent :: "json \<Rightarrow> json \<Rightarrow> js_exception + json" where
  "pushComponent (JObj kvs) inst =
     (if \<not> truthy (map_of kvs ''components'') then Inr (JObj (obj_set kvs ''components'' (JArr [inst])))
      else case map_of kvs ''components'' of
             Some (JArr xs) \<Rightarrow> Inr (JObj (obj_set kvs ''components'' (JArr (xs @ [inst]))))
           | _ \<Rightarrow> Inl TypeError)"
| "pushComponent (JArr xs) inst = Inr (JArr xs)"
| "pushComponent v inst = Inl TypeError"

definition handleCreateComponent ::
  "nat \<Rightarrow> uuid \<Rightarrow> json \<Rightarrow> uuid option \<Rightarrow> uuid option \<Rightarrow> spec_row list \<Rightarrow> StepResult \<times> spec_row list" where
  "handleCreateComponent now appId step buildRequestId userId spec =
     (let componentName = js_or (get_prop step ''name'') (get_prop step ''target'')
      in if \<not> truthy componentName \<or> \<not> is_string componentName
         then (Failure CreateComponentMissingName, spec)
         else
           (let componentType = js_or (get_prop step ''componentType'') (Some (JStr ''Component''));
                pageSlug = get_prop step ''pageSlug''
            in if \<not> is_string componentType then (Failure CreateComponentMissingType, spec)
               else if truthy pageSlug \<and>
                       single (spec_select appId ''ui'' (js_to_string (the pageSlug)) spec) = None
               then (Failure (PageDoesNotExist (the pageSlug)), spec)
               else
                 (let componentConfig =
                        JObj ([(''name'', the componentName), (''type'', the componentType)]
                              @ spread_if (truthy (get_prop step ''props'')) ''props'' (get_prop step ''props'')
                              @ spread_if (truthy (get_prop step ''metadata'')) ''metadata''
                                  (get_prop step ''metadata'')
                              @ spread_if (truthy (get_prop step ''details'')) ''details''
                                  (get_prop step ''details''));
                      spec1 = spec_upsert
                                (mk_spec_row appId ''ui'' (str_of componentName) componentConfig
                                   userId buildRequestId) spec;
                      done = Success (JObj [(''componentName'', the componentName),
                                            (''componentType'', the componentType),
                                            (''addedToPage'', JBool (truthy pageSlug))])
                  in if \<not> truthy pageSlug then (done, spec1)
                     else case single (spec_select appId ''ui'' (js_to_string (the pageSlug)) spec1) of
                            None \<Rightarrow> (done, spec1)
                          | Some pageConfig \<Rightarrow>
                              (let componentId =
                                     js_or (get_prop step ''componentId'')
                                       (Some (JStr (str_of componentName @ ''-'' @ show_nat now)));
                                   inst = JObj ([(''id'', the componentId), (''type'', the componentType),
                                                 (''name'', the componentName)]
                                                @ spread_if (truthy (get_prop step ''props'')) ''props''
                                                    (get_prop step ''props''))
                               in if config_value pageConfig = JNull
                                  then (Failure (CreateComponentError TypeError), spec1)
                                  else case pushComponent (config_value pageConfig) inst of
                                         Inl e \<Rightarrow> (Failure (CreateComponentError e), spec1)
                                       | Inr pageValue \<Rightarrow>
                                           (done,
                                            spec_update_value appId ''ui'' (js_to_string (the pageSlug))
                                              pageValue spec1)))))"

subsection \<open>set\_permissions\<close>

definition validActions :: "string list" where
  "validActions = [''read'', ''write'', ''delete'', ''admin'', ''create'', ''update'']"

definition validRoles :: "string list" where
  "validRoles = [''user'', ''admin'', ''public'', ''authenticated'']"

text \<open>The historical input shapes, tried in the order of the source. The result is the
  value of the variable \<^verbatim>\<open>permissions\<close> before it is checked to be an array.\<close>

definition resolvePermissions :: "json \<Rightarrow> json option" where
  "resolvePermissions step =
     (let permissions = get_prop step ''permissions'';
          details = get_prop step ''details''
      in if \<not> truthy permissions \<and> truthy details then
           (let resource = the (js_or (js_or (js_or (get_prop step ''target'') (get_prop step ''name''))
                                             (get_prop step ''slug''))
                                      (Some (JStr ''resource'')))
            in case opt_prop details ''access_rules'' of
                 Some (JArr acts) \<Rightarrow>
                   Some (JArr (map (\<lambda>action. JObj [(''resource'', resource), (''action'', action),
                                                      (''role'', JStr ''user'')]) acts))
               | _ \<Rightarrow>
                   (case opt_prop details ''permissions'' of
                      Some (JArr ps) \<Rightarrow> Some (JArr ps)
                    | _ \<Rightarrow>
                        (case opt_prop details ''rules'' of
                           Some (JArr rs) \<Rightarrow> Some (JArr rs)
                         | _ \<Rightarrow>
                             (case details of
                                Some (JArr ds) \<Rightarrow> Some (JArr ds)
                              | _ \<Rightarrow> permissions))))
         else permissions)"

text \<open>The validation loop: \<^verbatim>\<open>role\<close> is checked against the closed set only when it is
  truthy.\<close>

fun validatePermissions :: "json list \<Rightarrow> step_error option" where
  "validatePermissions [] = None"
| "validatePermissions (permission # rest) =
     (if permission = JNull then Some (SetPermissionsError TypeError)
      else if \<not> truthy (get_prop permission ''resource'') \<or> \<not> is_string (get_prop permission ''resource'')
      then Some (PermissionMissingResource permission)
      else if \<not> truthy (get_prop permission ''action'') \<or>
              \<not> includes_str validActions (get_prop permission ''action'')
      then Some (InvalidAction (get_prop permission ''action''))
      else if truthy (get_prop permission ''role'') \<and>
              \<not> includes_str validRoles (get_prop permission ''role'')
      then Some (InvalidRole (get_prop permission ''role''))
      else validatePermissions rest)"

text \<open>\<^verbatim>\<open>existingPermissions ? (existingPermissions.config_value as any).rules || [] : []\<close>
  followed by the copy \<^verbatim>\<open>[...existingRules]\<close>.\<close>

definition existingRulesOf :: "spec_row option \<Rightarrow> js_exception + json list" where
  "existingRulesOf existingPermissions =
     (case existingPermissions of
        None \<Rightarrow> Inr []
      | Some row \<Rightarrow>
          (if config_value row = JNull then Inl TypeError
           else case js_or (get_prop (config_value row) ''rules'') (Some (JArr [])) of
                  Some (JArr rs) \<Rightarrow> Inr rs
                | Some (JStr s) \<Rightarrow> Inr (map (\<lambda>c. JStr [c]) s)
                | _ \<Rightarrow> Inl TypeError))"

text \<open>The predicate given to \<^verbatim>\<open>findIndex\<close>: the stored rule's role is compared with the
  incoming role, or with \<^verbatim>\<open>"user"\<close> when the incoming role is falsy.\<close>

definition ruleMatches :: "json \<Rightarrow> json \<Rightarrow> bool" where
  "ruleMatches newPermission rule =
     (js_strict_eq (get_prop rule ''resource'') (get_prop newPermission ''resource'') \<and>
      js_strict_eq (get_prop rule ''action'') (get_prop newPermission ''action'') \<and>
      js_strict_eq (get_prop rule ''role'')
        (js_or (get_prop newPermission ''role'') (Some (JStr ''user''))))"

fun findIndex :: "json \<Rightarrow> json list \<Rightarrow> nat \<Rightarrow> js_exception + nat option" where
  "findIndex newPermission [] i = Inr None"
| "findIndex newPermission (rule # rules) i =
     (if rule = JNull then Inl TypeError
      else if ruleMatches newPermission rule then Inr (Some i)
      else findIndex newPermission rules (Suc i))"

fun mergeRules :: "json list \<Rightarrow> json list \<Rightarrow> js_exception + json list" where
  "mergeRules mergedRules [] = Inr mergedRules"
| "mergeRules mergedRules (newPermission # rest) =
     (case findIndex newPermission mergedRules 0 of
        Inl e \<Rightarrow> Inl e
      | Inr (Some existingIndex) \<Rightarrow> mergeRules (mergedRules[existingIndex := newPermission]) rest
      | Inr None \<Rightarrow> mergeRules (mergedRules @ [newPermission]) rest)"

definition handleSetPermissions ::
  "uuid \<Rightarrow> json \<Rightarrow> uuid option \<Rightarrow> uuid option \<Rightarrow> spec_row list \<Rightarrow> StepResult \<times> spec_row list" where
  "handleSetPermissions appId step buildRequestId userId spec =
     (case resolvePermissions step of
        Some (JArr permissions) \<Rightarrow>
          (case validatePermissions permissions of
             Some e \<Rightarrow> (Failure e, spec)
           | None \<Rightarrow>
               (case existingRulesOf (single (spec_select appId ''permissions'' ''rules'' spec)) of
                  Inl e \<Rightarrow> (Failure (SetPermissionsError e), spec)
                | Inr existingRules \<Rightarrow>
                    (case mergeRules existingRules permissions of
                       Inl e \<Rightarrow> (Failure (SetPermissionsError e), spec)
                     | Inr mergedRules \<Rightarrow>
                         (Success (JObj [(''rulesCount'', JNum (int (length mergedRules)))]),
                          spec_upsert
                            (mk_spec_row appId ''permissions'' ''rules''
                               (JObj [(''rules'', JArr mergedRules)]) userId buildRequestId)
                            spec))))
      | _ \<Rightarrow> (Failure (SetPermissionsMissingPermissions step), spec))"

subsection \<open>Dispatch\<close>

text \<open>\<^verbatim>\<open>executeStep\<close> of the step handlers (imported by the routes as
  \<^verbatim>\<open>executeStepHandler\<close>): a \<^verbatim>\<open>switch\<close> on \<^verbatim>\<open>step.type\<close>. The clock is the
  value \<^verbatim>\<open>Date.now()\<close> would return inside create\_component.\<close>

definition executeStepHandler ::
  "nat \<Rightarrow> uuid \<Rightarrow> json \<Rightarrow> uuid option \<Rightarrow> uuid option \<Rightarrow> spec_row list \<Rightarrow> StepResult \<times> spec_row list" where
  "executeStepHandler now appId step buildRequestId userId spec =
     (if strict_eq_str (get_prop step ''type'') ''create_model''
      then handleCreateModel appId step buildRequestId userId spec
      else if strict_eq_str (get_prop step ''type'') ''create_page''
      then handleCreatePage appId step buildRequestId userId spec
      else if strict_eq_str (get_prop step ''type'') ''create_component''
      then handleCreateComponent now appId step buildRequestId userId spec
      else if strict_eq_str (get_prop step ''type'') ''set_permissions''
      then handleSetPermissions appId step buildRequestId userId spec
      else (Failure (UnknownStepType (get_prop step ''type'')), spec))"

section \<open>Tables of the step pipeline\<close>

text \<open>\<^verbatim>\<open>buildr_execution_steps\<close>. The columns \<^verbatim>\<open>type\<close> and \<^verbatim>\<open>target\<close> are held
  as the JSON values the routes write and read (a string for every row written from a
  string; \<open>JNull\<close> for SQL null). The legacy column \<^verbatim>\<open>step_type\<close> is absent, so
  \<^verbatim>\<open>step.step_type\<close> is undefined. The timestamps other than \<^verbatim>\<open>created_at\<close> are
  never read and are left out.\<close>

record step_row =
  step_id :: uuid
  step_app_id :: uuid
  operation_id :: "uuid option"
  step_index :: int
  type_column :: json
  target :: json
  step_status :: status
  error_message :: "string option"
  created_at :: nat

text \<open>What a failed run of an operation's steps leaves in \<^verbatim>\<open>error_message\<close> of the
  operations log (the run-all route joins one entry per failing step).\<close>

datatype step_failure = MissingType nat | StepFailed nat "json option" step_error

datatype operation_error =
    InvalidOperationsFormat
  | StepErrors "step_failure list"
  | OperationException js_exception

text \<open>\<^verbatim>\<open>buildr_operations_log\<close>.\<close>

record op_row =
  op_id :: uuid
  op_app_id :: uuid
  op_user_id :: uuid
  intent :: string
  operations :: json
  op_status :: status
  op_error_message :: "operation_error option"
  applied_at :: "nat option"
  op_created_at :: nat
  op_build_request_id :: "uuid option"

text \<open>\<^verbatim>\<open>buildr_apps\<close>, the columns the routes read.\<close>

record app_row =
  app_id :: uuid
  app_user_id :: "uuid option"
  app_build_request_id :: "uuid option"

text \<open>\<^verbatim>\<open>buildr_app_versions\<close>.\<close>

record version_row =
  version_app_id :: uuid
  version_user_id :: uuid
  version_operation_id :: uuid
  chat_message_id :: "uuid option"
  version_number :: int
  config_snapshot :: json

text \<open>\<^verbatim>\<open>buildr_app_operations\<close> and \<^verbatim>\<open>buildr_app_config\<close>, the tables of the bulk
  validate-then-apply route. The column \<^verbatim>\<open>operations\<close> is the array the producer
  submitted (the route casts it to \<^verbatim>\<open>Operation[]\<close>); a text key written from a
  JSON scalar is its text.\<close>

datatype validation_error =
    InvalidOperationType "json option"
  | MissingRequiredField string
  | ComponentMissingType
  | PageNotExist json
  | ComponentTypeNotInLibrary json
  | DataModelNotExist json
  | PageMissingSlug
  | PageExists json
  | LayoutNotExist json
  | FieldMissingNameProperty
  | InvalidFieldTypeV json
  | InvalidTheme json
  | PermissionMissingField string
  | InvalidActionV json
  | ComponentNotOnPage json json

datatype bulk_error =
    ValidationErrors "(nat \<times> json option \<times> validation_error list) list"
  | UnknownOperationType "json option"
  | PageNotFound "json option"
  | BulkException js_exception

record app_operation_row =
  aop_id :: uuid
  aop_app_id :: uuid
  aop_user_id :: uuid
  aop_operations :: "json list"
  aop_status :: status
  aop_error_message :: "bulk_error option"
  aop_applied_at :: "nat option"
  aop_chat_message_id :: "uuid option"
  aop_created_at :: nat

record config_row =
  cfg_id :: uuid
  cfg_app_id :: uuid
  cfg_type :: string
  cfg_key :: string
  cfg_value :: json

record db =
  execution_steps :: "step_row list"
  operations_log :: "op_row list"
  app_spec :: "spec_row list"
  apps :: "app_row list"
  app_operations :: "app_operation_row list"
  app_config :: "config_row list"
  app_versions :: "version_row list"
  next_uuid :: uuid

section \<open>Step Expander (expand-operations)\<close>

record expand_request =
  expand_method :: string
  expand_appId :: "uuid option"
  expand_operationId :: "uuid option"

datatype expand_error = ExpandMethodNotAllowed | AppIdOrOperationIdRequired | ExpandException js_exception

datatype expand_response =
    ExpandOk nat "uuid list"
  | ExpandError nat expand_error

text \<open>\<^verbatim>\<open>step.name || step.slug || step.componentName || step.target || `step-${index}`\<close>.\<close>

definition stepTarget :: "json \<Rightarrow> nat \<Rightarrow> json" where
  "stepTarget step index =
     the (js_or (js_or (js_or (js_or (get_prop step ''name'') (get_prop step ''slug''))
                              (get_prop step ''componentName''))
                       (get_prop step ''target''))
                (Some (JStr (''step-'' @ show_nat index))))"

text \<open>The \<^verbatim>\<open>map\<close> over the raw descriptors. A \<^verbatim>\<open>null\<close> descriptor raises at
  \<^verbatim>\<open>step.type\<close>. The inserted rows take consecutive fresh identifiers from \<open>base\<close>
  and the insertion time \<open>now\<close>.\<close>

fun stepsToInsert :: "op_row \<Rightarrow> nat \<Rightarrow> uuid \<Rightarrow> nat \<Rightarrow> json list \<Rightarrow> js_exception + step_row list" where
  "stepsToInsert operation now base index [] = Inr []"
| "stepsToInsert operation now base index (step # rest) =
     (if step = JNull then Inl TypeError
      else case stepsToInsert operation now base (Suc index) rest of
             Inl e \<Rightarrow> Inl e
           | Inr rows \<Rightarrow>
               Inr (\<lparr>step_id = base + index,
                      step_app_id = op_app_id operation,
                      operation_id = Some (op_id operation),
                      step_index = int index,
                      type_column = the (js_or (get_prop step ''type'') (Some (JStr ''create_component''))),
                      target = stepTarget step index,
                      step_status = Pending,
                      error_message = None,
                      created_at = now\<rparr> # rows))"

text \<open>The body of the loop for one operation. \<open>Inr None\<close> is \<^verbatim>\<open>continue\<close> (nothing
  expanded), \<open>Inr (Some n)\<close> is an expansion into \<open>n\<close> steps, \<open>Inl e\<close> an exception that
  leaves the loop; the database returned is the one the body has written so far.\<close>

definition existingSteps :: "op_row \<Rightarrow> step_row list \<Rightarrow> step_row list" where
  "existingSteps operation steps =
     take 1 (filter (\<lambda>s. operation_id s = Some (op_id operation) \<and>
                          step_app_id s = op_app_id operation) steps)"

definition deleteOrphans :: "uuid \<Rightarrow> step_row list \<Rightarrow> step_row list" where
  "deleteOrphans appId steps =
     filter (\<lambda>s. \<not> (step_app_id s = appId \<and> operation_id s = None)) steps"

definition expandOperation :: "nat \<Rightarrow> op_row \<Rightarrow> db \<Rightarrow> (js_exception + nat option) \<times> db" where
  "expandOperation now operation d =
     (case operations operation of
        JArr operationsArray \<Rightarrow>
          (if operationsArray = [] then (Inr None, d)
           else if existingSteps operation (execution_steps d) \<noteq> [] then (Inr None, d)
           else
             (let d1 = d\<lparr>execution_steps := deleteOrphans (op_app_id operation) (execution_steps d)\<rparr>
              in case stepsToInsert operation now (next_uuid d1) 0 operationsArray of
                   Inl e \<Rightarrow> (Inl e, d1)
                 | Inr rows \<Rightarrow>
                     (Inr (Some (length rows)),
                      d1\<lparr>execution_steps := execution_steps d1 @ rows,
                         next_uuid := next_uuid d1 + length rows\<rparr>)))
      | _ \<Rightarrow> (Inr None, d))"

fun expandLoop ::
  "nat \<Rightarrow> op_row list \<Rightarrow> db \<Rightarrow> nat \<Rightarrow> uuid list \<Rightarrow> (js_exception + nat \<times> uuid list) \<times> db" where
  "expandLoop now [] d totalExpanded processedOperationIds =
     (Inr (totalExpanded, processedOperationIds), d)"
| "expandLoop now (operation # rest) d totalExpanded processedOperationIds =
     (case expandOperation now operation d of
        (Inl e, d') \<Rightarrow> (Inl e, d')
      | (Inr None, d') \<Rightarrow> expandLoop now rest d' totalExpanded processedOperationIds
      | (Inr (Some n), d') \<Rightarrow>
          expandLoop now rest d' (totalExpanded + n) (processedOperationIds @ [op_id operation]))"

text \<open>The query for pending operations: by id when \<^verbatim>\<open>operationId\<close> is given, otherwise
  by app, oldest first.\<close>

definition pendingOperations :: "uuid option \<Rightarrow> uuid option \<Rightarrow> op_row list \<Rightarrow> op_row list" where
  "pendingOperations appId operationId ops =
     sort_key op_created_at
       (filter (\<lambda>operation. op_status operation = Pending \<and>
                  (case operationId of
                     Some oid \<Rightarrow> op_id operation = oid
                   | None \<Rightarrow> (case appId of Some a \<Rightarrow> op_app_id operation = a | None \<Rightarrow> True)))
               ops)"

definition expand_operations_handler :: "nat \<Rightarrow> expand_request \<Rightarrow> db \<Rightarrow> expand_response \<times> db" where
  "expand_operations_handler now req d =
     (if expand_method req \<noteq> ''POST'' then (ExpandError 405 ExpandMethodNotAllowed, d)
      else if expand_appId req = None \<and> expand_operationId req = None
      then (ExpandError 400 AppIdOrOperationIdRequired, d)
      else
        (let ops = pendingOperations (expand_appId req) (expand_operationId req) (operations_log d)
         in if ops = [] then (ExpandOk 0 [], d)
            else case expandLoop now ops d 0 [] of
                   (Inl e, d') \<Rightarrow> (ExpandError 500 (ExpandException e), d')
                 | (Inr (totalExpanded, processedOperationIds), d') \<Rightarrow>
                     (ExpandOk totalExpanded processedOperationIds, d')))"

section \<open>Run Loop (run-step)\<close>

record run_request =
  run_method :: string
  run_app_id :: "uuid option"

datatype exec_error =
    FetchOperationFailed uuid
  | StepIndexNotFound int nat
  | InvalidOperationsArray uuid
  | StepMissingType
  | HandlerFailed step_error
  | MarkAppliedNoRows

datatype run_error =
    RunMethodNotAllowed
  | MissingAppId
  | MarkProcessingNoRows
  | NoUserId
  | StepExecutionFailed exec_error

datatype run_response =
    RunApplied step_row
  | RunDone
  | RunError nat run_error

text \<open>Step 1: \<^verbatim>\<open>.eq("app_id", app_id).eq("status", "pending").order("step_index",
  { ascending: true }).limit(1).single()\<close>. The order is by \<^verbatim>\<open>step_index\<close> alone;
  among equal indices the sort keeps the scan order of the table.\<close>

definition selectNextPending :: "uuid \<Rightarrow> step_row list \<Rightarrow> step_row option" where
  "selectNextPending appId steps =
     single (take 1 (sort_key step_index
                       (filter (\<lambda>s. step_app_id s = appId \<and> step_status s = Pending) steps)))"

text \<open>\<^verbatim>\<open>.update({ status }).eq("id", id).select()\<close>: the new table and the rows the
  update returned. The only filter is the identifier.\<close>

definition updateStatus :: "uuid \<Rightarrow> status \<Rightarrow> step_row list \<Rightarrow> step_row list \<times> step_row list" where
  "updateStatus sid st steps =
     (map (\<lambda>s. if step_id s = sid then s\<lparr>step_status := st\<rparr> else s) steps,
      map (\<lambda>s. s\<lparr>step_status := st\<rparr>) (filter (\<lambda>s. step_id s = sid) steps))"

text \<open>\<^verbatim>\<open>xs[i]\<close> for an integer \<open>i\<close>: undefined outside the array.\<close>

definition nth_opt :: "json list \<Rightarrow> int \<Rightarrow> json option" where
  "nth_opt xs i = (if 0 \<le> i \<and> nat i < length xs then Some (xs ! nat i) else None)"

fun json_of_text :: "string option \<Rightarrow> json" where
  "json_of_text None = JNull"
| "json_of_text (Some s) = JStr s"

text \<open>The payload of a step without \<^verbatim>\<open>operation_id\<close>: the row without the metadata
  columns named in the destructuring (\<^verbatim>\<open>id, app_id, step_index, status, operation_id,
  created_at, updated_at, started_at, completed_at, error\<close>), and \<^verbatim>\<open>slug\<close> aliased
  to \<^verbatim>\<open>target\<close>.\<close>

definition stepFields :: "step_row \<Rightarrow> (string \<times> json) list" where
  "stepFields step =
     [(''type'', type_column step), (''target'', target step),
      (''error_message'', json_of_text (error_message step))]"

definition ownStepData :: "step_row \<Rightarrow> json" where
  "ownStepData step =
     JObj (obj_set (stepFields step) ''slug''
             (the (js_or (map_of (stepFields step) ''slug'') (map_of (stepFields step) ''target''))))"

text \<open>The payload resolution of \<^verbatim>\<open>executeStep\<close> in the route: the pair of the step type
  and the step data, or the error thrown.\<close>

definition resolveStepData :: "step_row \<Rightarrow> op_row list \<Rightarrow> exec_error + (json option \<times> json)" where
  "resolveStepData step ops =
     (let stepType = js_or (Some (type_column step)) None
      in case operation_id step of
           Some oid \<Rightarrow>
             (case single (filter (\<lambda>operation. op_id operation = oid) ops) of
                None \<Rightarrow> Inl (FetchOperationFailed oid)
              | Some operation \<Rightarrow>
                  (case operations operation of
                     JArr descriptors \<Rightarrow>
                       (let fullStep = nth_opt descriptors (step_index step)
                        in if truthy fullStep
                           then Inr (js_or (opt_prop fullStep ''type'') stepType, the fullStep)
                           else Inl (StepIndexNotFound (step_index step) (length descriptors)))
                   | _ \<Rightarrow> Inl (InvalidOperationsArray oid)))
         | None \<Rightarrow> Inr (stepType, ownStepData step))"

definition executeStep ::
  "nat \<Rightarrow> step_row \<Rightarrow> uuid \<Rightarrow> uuid option \<Rightarrow> uuid option \<Rightarrow> db \<Rightarrow> (exec_error + StepResult) \<times> db" where
  "executeStep now step appId buildRequestId userId d =
     (case resolveStepData step (operations_log d) of
        Inl e \<Rightarrow> (Inl e, d)
      | Inr (stepType, stepData) \<Rightarrow>
          (if \<not> truthy stepType then (Inl StepMissingType, d)
           else
             (let handlerStep = JObj (spread_into [(''type'', the stepType)] (Some stepData))
              in case executeStepHandler now appId handlerStep buildRequestId userId (app_spec d) of
                   (Failure e, spec') \<Rightarrow> (Inl (HandlerFailed e), d\<lparr>app_spec := spec'\<rparr>)
                 | (Success r, spec') \<Rightarrow> (Inr (Success r), d\<lparr>app_spec := spec'\<rparr>))))"

text \<open>The \<^verbatim>\<open>catch\<close> block (step 5): only the status is written; the message goes into
  the response.\<close>

definition markFailed :: "step_row \<Rightarrow> exec_error \<Rightarrow> db \<Rightarrow> run_response \<times> db" where
  "markFailed step e d =
     (RunError 500 (StepExecutionFailed e),
      d\<lparr>execution_steps := fst (updateStatus (step_id step) Failed (execution_steps d))\<rparr>)"

definition lookupBuildRequestId :: "step_row \<Rightarrow> app_row option \<Rightarrow> op_row list \<Rightarrow> uuid option" where
  "lookupBuildRequestId step app ops =
     (let buildRequestId = (case app of Some a \<Rightarrow> app_build_request_id a | None \<Rightarrow> None)
      in if buildRequestId = None \<and> operation_id step \<noteq> None
         then (case single (filter (\<lambda>operation. op_id operation = the (operation_id step)) ops) of
                 Some operation \<Rightarrow>
                   (case op_build_request_id operation of Some b \<Rightarrow> Some b | None \<Rightarrow> buildRequestId)
               | None \<Rightarrow> buildRequestId)
         else buildRequestId)"

text \<open>Steps 2 to 5 of the route, for the row \<open>step\<close> that step 1 has read. The database
  is the one at the time of the update, which another caller may have changed since the
  read.\<close>

definition runClaimed :: "nat \<Rightarrow> uuid \<Rightarrow> step_row \<Rightarrow> db \<Rightarrow> run_response \<times> db" where
  "runClaimed now appId step d =
     (let (steps1, updateData) = updateStatus (step_id step) Processing (execution_steps d);
          d1 = d\<lparr>execution_steps := steps1\<rparr>
      in if updateData = [] then (RunError 500 MarkProcessingNoRows, d1)
         else
           (let app = single (filter (\<lambda>a. app_id a = appId) (apps d1));
                userId = (case app of Some a \<Rightarrow> app_user_id a | None \<Rightarrow> None);
                buildRequestId = lookupBuildRequestId step app (operations_log d1)
            in if userId = None then (RunError 500 NoUserId, d1)
               else case executeStep now step appId buildRequestId userId d1 of
                      (Inl e, d2) \<Rightarrow> markFailed step e d2
                    | (Inr result, d2) \<Rightarrow>
                        (let (steps3, appliedData) =
                               updateStatus (step_id step) Applied (execution_steps d2)
                         in if appliedData = []
                            then markFailed step MarkAppliedNoRows (d2\<lparr>execution_steps := steps3\<rparr>)
                            else (RunApplied step, d2\<lparr>execution_steps := steps3\<rparr>))))"

definition run_step_handler :: "nat \<Rightarrow> run_request \<Rightarrow> db \<Rightarrow> run_response \<times> db" where
  "run_step_handler now req d =
     (if run_method req \<noteq> ''POST'' then (RunError 405 RunMethodNotAllowed, d)
      else case run_app_id req of
             None \<Rightarrow> (RunError 400 MissingAppId, d)
           | Some appId \<Rightarrow>
               (case selectNextPending appId (execution_steps d) of
                  None \<Rightarrow> (RunDone, d)
                | Some step \<Rightarrow> runClaimed now appId step d))"

section \<open>Run-all route (run/[appId])\<close>










section \<open>Operation Validator\<close>

















section \<open>Bulk route (process-operations)\<close>













subsection \<open>Version snapshot\<close>






subsection \<open>The route\<close>









section \<open>Observations and example data\<close>

text \<open>The rules of the app's rule set as a reader of the Specification Store sees them.\<close>

definition storedRules :: "uuid \<Rightarrow> spec_row list \<Rightarrow> json list" where
  "storedRules appId spec =
     (case single (spec_select appId ''permissions'' ''rules'' spec) of
        Some row \<Rightarrow> (case get_prop (config_value row) ''rules'' of Some (JArr rs) \<Rightarrow> rs | _ \<Rightarrow> [])
      | None \<Rightarrow> [])"

text \<open>A stored rule carries the triple \<open>(r, a, ro)\<close>.\<close>

definition hasTriple :: "string \<Rightarrow> string \<Rightarrow> string \<Rightarrow> json \<Rightarrow> bool" where
  "hasTriple r a ro rule =
     (strict_eq_str (get_prop rule ''resource'') r \<and> strict_eq_str (get_prop rule ''action'') a \<and>
      strict_eq_str (get_prop rule ''role'') ro)"

definition ordersReadUser :: json where
  "ordersReadUser = JObj [(''resource'', JStr ''orders''), (''action'', JStr ''read''), (''role'', JStr ''user'')]"

definition ordersRead :: json where
  "ordersRead = JObj [(''resource'', JStr ''orders''), (''action'', JStr ''read'')]"

definition setPermissionsStep :: "json \<Rightarrow> json" where
  "setPermissionsStep p = JObj [(''type'', JStr ''set_permissions''), (''permissions'', JArr [p])]"

definition orderModelStep :: json where
  "orderModelStep =
     JObj [(''type'', JStr ''create_model''), (''name'', JStr ''Order''),
           (''fields'', JArr [JObj [(''name'', JStr ''total''), (''type'', JStr ''number'')]])]"

definition orderModelRow :: spec_row where
  "orderModelRow =
     mk_spec_row 1 ''architecture'' ''Order''
       (JObj [(''name'', JStr ''Order''), (''fields'', JArr [])]) None None"

text \<open>The steps that refer to an operation, and the orphans of an app.\<close>

definition linkedSteps :: "uuid \<Rightarrow> step_row list \<Rightarrow> step_row list" where
  "linkedSteps oid steps = filter (\<lambda>s. operation_id s = Some oid) steps"

definition orphanSteps :: "uuid \<Rightarrow> step_row list \<Rightarrow> step_row list" where
  "orphanSteps appId steps = filter (\<lambda>s. step_app_id s = appId \<and> operation_id s = None) steps"

text \<open>An operation the expander passes over: its descriptors are not a non-empty array, or
  a step of its app already refers to it.\<close>

definition settled :: "op_row \<Rightarrow> db \<Rightarrow> bool" where
  "settled operation d =
     ((case operations operation of JArr ds \<Rightarrow> ds = [] | _ \<Rightarrow> True) \<or>
      existingSteps operation (execution_steps d) \<noteq> [])"

text \<open>The end-to-end example of the specification: one operation with a page and a model,
  for an app that still has a directly inserted step.\<close>

definition ordersPageStep :: json where
  "ordersPageStep = JObj [(''type'', JStr ''create_page''), (''slug'', JStr ''orders''), (''title'', JStr ''Orders'')]"

definition exampleOperation :: op_row where
  "exampleOperation =
     \<lparr>op_id = 10, op_app_id = 1, op_user_id = 5, intent = ''add orders page'',
      operations = JArr [ordersPageStep, orderModelStep], op_status = Pending,
      op_error_message = None, applied_at = None, op_created_at = 100,
      op_build_request_id = None\<rparr>"

definition orphanStep :: step_row where
  "orphanStep =
     \<lparr>step_id = 1, step_app_id = 1, operation_id = None, step_index = 0,
      type_column = JStr ''create_page'', target = JStr ''home'', step_status = Pending,
      error_message = None, created_at = 50\<rparr>"

definition exampleDb :: db where
  "exampleDb =
     \<lparr>execution_steps = [orphanStep], operations_log = [exampleOperation], app_spec = [],
      apps = [\<lparr>app_id = 1, app_user_id = Some 5, app_build_request_id = None\<rparr>],
      app_operations = [], app_config = [], app_versions = [], next_uuid = 100\<rparr>"

definition expandRequest :: expand_request where
  "expandRequest = \<lparr>expand_method = ''POST'', expand_appId = Some 1, expand_operationId = None\<rparr>"

text \<open>The two steps the expander creates for it, and the database after the expansion.\<close>

definition expandedStep0 :: step_row where
  "expandedStep0 =
     \<lparr>step_id = 100, step_app_id = 1, operation_id = Some 10, step_index = 0,
      type_column = JStr ''create_page'', target = JStr ''orders'', step_status = Pending,
      error_message = None, created_at = 0\<rparr>"

definition expandedStep1 :: step_row where
  "expandedStep1 =
     \<lparr>step_id = 101, step_app_id = 1, operation_id = Some 10, step_index = 1,
      type_column = JStr ''create_model'', target = JStr ''Order'', step_status = Pending,
      error_message = None, created_at = 0\<rparr>"

definition expandedDb :: db where
  "expandedDb = exampleDb\<lparr>execution_steps := [expandedStep0, expandedStep1], next_uuid := 102\<rparr>"

definition runRequest :: run_request where
  "runRequest = \<lparr>run_method = ''POST'', run_app_id = Some 1\<rparr>"

text \<open>A second operation of the same app, created later, whose only step shares the index 0
  and precedes the older steps in the scan order of the table (Postgres returns rows with
  equal sort keys in no specified order).\<close>

definition laterOperation :: op_row where
  "laterOperation =
     \<lparr>op_id = 20, op_app_id = 1, op_user_id = 5, intent = ''add help page'',
      operations = JArr [JObj [(''type'', JStr ''create_page''), (''slug'', JStr ''help'')]],
      op_status = Pending, op_error_message = None, applied_at = None, op_created_at = 200,
      op_build_request_id = None\<rparr>"

definition tieLater :: step_row where
  "tieLater =
     \<lparr>step_id = 200, step_app_id = 1, operation_id = Some 20, step_index = 0,
      type_column = JStr ''create_page'', target = JStr ''help'', step_status = Pending,
      error_message = None, created_at = 200\<rparr>"

definition tieDb :: db where
  "tieDb = exampleDb\<lparr>execution_steps := [tieLater, expandedStep0, expandedStep1],
                       operations_log := [exampleOperation, laterOperation]\<rparr>"

text \<open>The database another caller leaves after it has claimed and applied the first step
  of the example, and the same table with that step's row deleted.\<close>

definition staleDb :: db where
  "staleDb = snd (run_step_handler 2 runRequest expandedDb)"

definition goneDb :: db where
  "goneDb = expandedDb\<lparr>execution_steps := [expandedStep1]\<rparr>"

text \<open>The example after an external reset of its first step, which had failed before; the
  example with the page already present; and a step that refers past the end of the
  operation's descriptors.\<close>

definition retryDb :: db where
  "retryDb = expandedDb\<lparr>execution_steps :=
                [expandedStep0\<lparr>error_message := Some ''Page with slug orders already exists''\<rparr>,
                 expandedStep1]\<rparr>"

definition conflictDb :: db where
  "conflictDb = expandedDb\<lparr>app_spec :=
                   [mk_spec_row 1 ''ui'' ''orders'' (JObj [(''slug'', JStr ''orders'')]) None None]\<rparr>"

definition beyondStep :: step_row where
  "beyondStep = expandedStep1\<lparr>step_id := 102, step_index := 2\<rparr>"

text \<open>Successive invocations of run-one-step for one request, one clock reading each.\<close>

fun invocations :: "nat list \<Rightarrow> run_request \<Rightarrow> db \<Rightarrow> db" where
  "invocations [] req d = d"
| "invocations (now # nows) req d = invocations nows req (snd (run_step_handler now req d))"

text \<open>The tie example with the step of the later operation stored between the two steps
  of the first one.\<close>

definition interleavedDb :: db where
  "interleavedDb = tieDb\<lparr>execution_steps := [expandedStep0, tieLater, expandedStep1]\<rparr>"

text \<open>The example with, as its only step, the one that refers past the end of the
  descriptors.\<close>

definition beyondDb :: db where
  "beyondDb = expandedDb\<lparr>execution_steps := [beyondStep]\<rparr>"





section \<open>Field-type normalisation\<close>










section \<open>create\_model on an existing name\<close>

text \<open>
  Claim C6. Executing a create\_model step whose model name (\<^verbatim>\<open>name\<close>, or
  \<^verbatim>\<open>target\<close> when \<^verbatim>\<open>name\<close> is falsy) already has a data-model entry for the app
  returns failure, and the Specification Store after the call is the store before it.
\<close>

theorem create_model_existing_name_fails:
  assumes "get_prop step ''type'' = Some (JStr ''create_model'')"
      and "js_or (get_prop step ''name'') (get_prop step ''target'') = Some (JStr modelName)"
      and "\<exists>row \<in> set spec. spec_app_id row = appId \<and> config_type row = ''architecture'' \<and>
             config_key row = modelName"
  shows "\<not> success (fst (executeStepHandler now appId step buildRequestId userId spec)) \<and>
         snd (executeStepHandler now appId step buildRequestId userId spec) = spec"
proof -
  have sel: "spec_select appId ''architecture'' modelName spec \<noteq> []"
    using assms(3) by (auto simp: spec_select_def filter_empty_conv)
  have "\<exists>e. handleCreateModel appId step buildRequestId userId spec = (Failure e, spec)"
    using sel assms(2)
    by (auto simp: handleCreateModel_def Let_def spec_insert_def mk_spec_row_def
          split: if_splits option.splits json.splits sum.splits)
  then show ?thesis using assms(1) by (auto simp: executeStepHandler_def)
qed

theorem create_model_existing_name_witness:
  "\<not> success (fst (executeStepHandler 0 1 orderModelStep None None [orderModelRow])) \<and>
   snd (executeStepHandler 0 1 orderModelStep None None [orderModelRow]) = [orderModelRow] \<and>
   success (fst (executeStepHandler 0 1 orderModelStep None None []))"
proof -
  have "\<not> success (fst (executeStepHandler 0 1 orderModelStep None None [orderModelRow])) \<and>
        snd (executeStepHandler 0 1 orderModelStep None None [orderModelRow]) = [orderModelRow]"
    by (rule create_model_existing_name_fails[where modelName = "''Order''"])
       (simp_all add: orderModelStep_def orderModelRow_def mk_spec_row_def js_or_def)
  moreover have "success (fst (executeStepHandler 0 1 orderModelStep None None []))"
    by code_simp
  ultimately show ?thesis by simp
qed

section \<open>set\_permissions: merging by triple\<close>

lemma js_strict_eq_str [simp]: "js_strict_eq v (Some (JStr s)) = strict_eq_str v s"
  by (cases v) (auto simp: js_strict_eq_def split: json.splits)

lemma findIndex_total: "JNull \<notin> set rules \<Longrightarrow> \<exists>k. findIndex p rules i = Inr k"
  by (induction rules arbitrary: i) auto

lemma findIndex_None_iff:
  "findIndex p rules i = Inr None \<longleftrightarrow> JNull \<notin> set rules \<and> (\<forall>r \<in> set rules. \<not> ruleMatches p r)"
  by (induction rules arbitrary: i) auto

lemma findIndex_Some:
  "findIndex p rules i = Inr (Some k) \<Longrightarrow>
     i \<le> k \<and> k - i < length rules \<and> ruleMatches p (rules ! (k - i)) \<and> rules ! (k - i) \<noteq> JNull"
proof (induction rules arbitrary: i)
  case Nil
  then show ?case by simp
next
  case (Cons r rules)
  show ?case
  proof (cases "ruleMatches p r")
    case True
    with Cons.prems show ?thesis by (auto split: if_splits)
  next
    case False
    with Cons.prems have f: "findIndex p rules (Suc i) = Inr (Some k)" by (auto split: if_splits)
    from Cons.IH[OF f] have "Suc i \<le> k" "k - Suc i < length rules"
      "ruleMatches p (rules ! (k - Suc i))" "rules ! (k - Suc i) \<noteq> JNull" by auto
    moreover have "k - i = Suc (k - Suc i)" using \<open>Suc i \<le> k\<close> by simp
    ultimately show ?thesis by simp
  qed
qed

lemma findIndex_update_self:
  "findIndex p rules i = Inr (Some k) \<Longrightarrow> ruleMatches p p \<Longrightarrow> p \<noteq> JNull \<Longrightarrow>
     findIndex p (rules[k - i := p]) i = Inr (Some k)"
proof (induction rules arbitrary: i)
  case Nil
  then show ?case by simp
next
  case (Cons r rules)
  show ?case
  proof (cases "ruleMatches p r")
    case True
    with Cons.prems show ?thesis by (auto split: if_splits)
  next
    case False
    with Cons.prems have f: "findIndex p rules (Suc i) = Inr (Some k)" and rn: "r \<noteq> JNull"
      by (auto split: if_splits)
    from findIndex_Some[OF f] have le: "Suc i \<le> k" by simp
    then have eq: "k - i = Suc (k - Suc i)" by simp
    from Cons.IH[OF f Cons.prems(2,3)] show ?thesis
      using False rn by (simp add: eq)
  qed
qed

lemma findIndex_append_self:
  "findIndex p rules i = Inr None \<Longrightarrow> ruleMatches p p \<Longrightarrow> p \<noteq> JNull \<Longrightarrow>
     findIndex p (rules @ [p]) i = Inr (Some (i + length rules))"
  by (induction rules arbitrary: i) (auto split: if_splits)

lemma filter_update_same:
  "k < length xs \<Longrightarrow> P (xs ! k) \<Longrightarrow> P y \<Longrightarrow> length (filter P (xs[k := y])) = length (filter P xs)"
proof (induction xs arbitrary: k)
  case Nil
  then show ?case by simp
next
  case (Cons x xs)
  then show ?case by (cases k) auto
qed

lemma filter_update_drop:
  "k < length xs \<Longrightarrow> P (xs ! k) \<Longrightarrow> \<not> P y \<Longrightarrow> Suc (length (filter P (xs[k := y]))) = length (filter P xs)"
proof (induction xs arbitrary: k)
  case Nil
  then show ?case by simp
next
  case (Cons x xs)
  then show ?case by (cases k) auto
qed

lemma spec_select_upsert:
  assumes "length (spec_select a t k spec) \<le> 1"
  shows "\<exists>row. spec_select a t k (spec_upsert (mk_spec_row a t k v u b) spec) = [row] \<and> config_value row = v"
proof -
  define r where "r = mk_spec_row a t k v u b"
  have r: "spec_app_id r = a" "config_type r = t" "config_key r = k" "config_value r = v"
    by (simp_all add: r_def mk_spec_row_def)
  show ?thesis
  proof (cases "spec_select a t k spec")
    case Nil
    then have "spec_upsert r spec = spec @ [r]" by (simp add: spec_upsert_def r)
    moreover have "spec_select a t k (spec @ [r]) = [r]"
      using Nil by (simp add: spec_select_def r)
    ultimately show ?thesis using r by (simp add: r_def)
  next
    case (Cons old rest)
    with assms have rest: "rest = []" by simp
    let ?f = "\<lambda>old. if spec_app_id old = a \<and> config_type old = t \<and> config_key old = k
                     then upsert_merge r old else old"
    have up: "spec_upsert r spec = map ?f spec" using Cons by (simp add: spec_upsert_def r)
    have "spec_select a t k (map ?f spec) = map ?f (spec_select a t k spec)"
      unfolding spec_select_def
      by (induction spec) (auto simp: upsert_merge_def)
    then have sel: "spec_select a t k (map ?f spec) = [?f old]" using Cons rest by simp
    have "old \<in> set (spec_select a t k spec)" using Cons by simp
    then have "spec_app_id old = a \<and> config_type old = t \<and> config_key old = k"
      by (simp add: spec_select_def)
    then have "?f old = upsert_merge r old" by simp
    moreover have "config_value (upsert_merge r old) = v" by (simp add: upsert_merge_def r)
    ultimately show ?thesis using sel up by (simp add: r_def)
  qed
qed

lemma spec_select_upsert_length:
  "length (spec_select a t k spec) \<le> 1 \<Longrightarrow>
     length (spec_select a t k (spec_upsert (mk_spec_row a t k v u b) spec)) \<le> 1"
  using spec_select_upsert[of a t k spec v u b] by auto

lemma storedRules_upsert:
  "length (spec_select a ''permissions'' ''rules'' spec) \<le> 1 \<Longrightarrow>
     storedRules a (spec_upsert (mk_spec_row a ''permissions'' ''rules'' (JObj [(''rules'', JArr rs)]) u b) spec) = rs"
  using spec_select_upsert[of a "''permissions''" "''rules''" spec "JObj [(''rules'', JArr rs)]" u b]
  by (auto simp: storedRules_def)

lemma existingRules_upsert:
  "length (spec_select a ''permissions'' ''rules'' spec) \<le> 1 \<Longrightarrow>
     existingRulesOf (single (spec_select a ''permissions'' ''rules''
        (spec_upsert (mk_spec_row a ''permissions'' ''rules'' (JObj [(''rules'', JArr rs)]) u b) spec))) = Inr rs"
  using spec_select_upsert[of a "''permissions''" "''rules''" spec "JObj [(''rules'', JArr rs)]" u b]
  by (auto simp: existingRulesOf_def js_or_def)


lemma resolvePermissions_explicit:
  "get_prop step ''permissions'' = Some (JArr ps) \<Longrightarrow> resolvePermissions step = Some (JArr ps)"
  by (simp add: resolvePermissions_def Let_def)

lemma handleSetPermissions_single:
  assumes "get_prop step ''permissions'' = Some (JArr [p])"
      and "validatePermissions [p] = None"
      and "existingRulesOf (single (spec_select appId ''permissions'' ''rules'' spec)) = Inr rules0"
      and "findIndex p rules0 0 = Inr idx"
  shows "handleSetPermissions appId step b u spec =
           (Success (JObj [(''rulesCount'',
                            JNum (int (length (case idx of Some k \<Rightarrow> rules0[k := p] | None \<Rightarrow> rules0 @ [p]))))]),
            spec_upsert (mk_spec_row appId ''permissions'' ''rules''
                           (JObj [(''rules'', JArr (case idx of Some k \<Rightarrow> rules0[k := p] | None \<Rightarrow> rules0 @ [p]))])
                           u b) spec)"
  using assms
  by (cases idx) (simp_all add: handleSetPermissions_def resolvePermissions_explicit)

lemma validate_explicit:
  assumes "get_prop p ''resource'' = Some (JStr r)" "r \<noteq> []"
      and "get_prop p ''action'' = Some (JStr a)" "a \<in> set validActions"
      and "get_prop p ''role'' = Some (JStr ro)" "ro \<in> set validRoles"
  shows "validatePermissions [p] = None"
proof -
  have "p \<noteq> JNull" using assms(1) by auto
  moreover have "a \<noteq> []" using assms(4) by (auto simp: validActions_def)
  ultimately show ?thesis using assms by (simp add: js_or_def)
qed

lemma validate_roleless:
  assumes "get_prop p ''resource'' = Some (JStr r)" "r \<noteq> []"
      and "get_prop p ''action'' = Some (JStr a)" "a \<in> set validActions"
      and "get_prop p ''role'' = None"
  shows "validatePermissions [p] = None"
proof -
  have "p \<noteq> JNull" using assms(1) by auto
  moreover have "a \<noteq> []" using assms(4) by (auto simp: validActions_def)
  ultimately show ?thesis using assms by simp
qed

lemma ruleMatches_explicit:
  assumes "get_prop p ''resource'' = Some (JStr r)"
      and "get_prop p ''action'' = Some (JStr a)"
      and "get_prop p ''role'' = Some (JStr ro)" "ro \<noteq> []"
  shows "ruleMatches p rule = hasTriple r a ro rule"
  using assms by (simp add: ruleMatches_def hasTriple_def js_or_def)

lemma ruleMatches_roleless:
  assumes "get_prop p ''resource'' = Some (JStr r)"
      and "get_prop p ''action'' = Some (JStr a)"
      and "get_prop p ''role'' = None"
  shows "ruleMatches p rule = hasTriple r a ''user'' rule"
  using assms by (simp add: ruleMatches_def hasTriple_def js_or_def)

text \<open>
  Claim C7. Let the rule set of the app be readable, free of null entries, stored in at
  most one row and holding at most one rule with the triple \<open>(r, a, ro)\<close>. Executing
  set\_permissions twice with the same explicit permission of that triple (a non-empty
  resource, a valid action, a valid role) succeeds both times and leaves exactly one
  stored rule with the triple: the second submission replaces the matching rule, and the
  stored rules after it are the stored rules before it.
\<close>

theorem set_permissions_same_triple_twice:
  assumes p: "get_prop p ''resource'' = Some (JStr r)" "r \<noteq> []"
             "get_prop p ''action'' = Some (JStr a)" "a \<in> set validActions"
             "get_prop p ''role'' = Some (JStr ro)" "ro \<in> set validRoles"
      and step: "get_prop step ''type'' = Some (JStr ''set_permissions'')"
                "get_prop step ''permissions'' = Some (JArr [p])"
      and uniq: "length (spec_select appId ''permissions'' ''rules'' spec) \<le> 1"
      and rules0: "existingRulesOf (single (spec_select appId ''permissions'' ''rules'' spec)) = Inr rules0"
                  "JNull \<notin> set rules0"
                  "length (filter (hasTriple r a ro) rules0) \<le> 1"
  shows "(let (result1, spec1) = executeStepHandler now appId step b u spec;
              (result2, spec2) = executeStepHandler now appId step b u spec1
          in success result1 \<and> success result2 \<and>
             length (filter (hasTriple r a ro) (storedRules appId spec2)) = 1 \<and>
             storedRules appId spec2 = storedRules appId spec1)"
proof -
  have ro: "ro \<noteq> []" using p(6) by (auto simp: validRoles_def)
  have pn: "p \<noteq> JNull" using p(1) by auto
  have val: "validatePermissions [p] = None" by (rule validate_explicit[OF p])
  have rm: "\<And>rule. ruleMatches p rule = hasTriple r a ro rule"
    by (rule ruleMatches_explicit[OF p(1) p(3) p(5) ro])
  have pp: "ruleMatches p p" using p by (simp add: rm hasTriple_def)
  have disp: "\<And>s. executeStepHandler now appId step b u s = handleSetPermissions appId step b u s"
    using step(1) by (simp add: executeStepHandler_def)
  obtain idx where idx: "findIndex p rules0 0 = Inr idx"
    using findIndex_total[OF rules0(2)] by blast
  define rules1 where "rules1 = (case idx of Some k \<Rightarrow> rules0[k := p] | None \<Rightarrow> rules0 @ [p])"
  define spec1 where "spec1 = spec_upsert (mk_spec_row appId ''permissions'' ''rules''
                           (JObj [(''rules'', JArr rules1)]) u b) spec"
  have run1: "handleSetPermissions appId step b u spec =
                (Success (JObj [(''rulesCount'', JNum (int (length rules1)))]), spec1)"
    unfolding rules1_def spec1_def
    by (rule handleSetPermissions_single[OF step(2) val rules0(1) idx])
  have uniq1: "length (spec_select appId ''permissions'' ''rules'' spec1) \<le> 1"
    unfolding spec1_def by (rule spec_select_upsert_length[OF uniq])
  have ex1: "existingRulesOf (single (spec_select appId ''permissions'' ''rules'' spec1)) = Inr rules1"
    unfolding spec1_def by (rule existingRules_upsert[OF uniq])
  have st1: "storedRules appId spec1 = rules1"
    unfolding spec1_def by (rule storedRules_upsert[OF uniq])
  have idx1: "\<exists>k. findIndex p rules1 0 = Inr (Some k) \<and> rules1[k := p] = rules1"
  proof (cases idx)
    case None
    then have "findIndex p rules1 0 = Inr (Some (0 + length rules0))"
      using idx findIndex_append_self[OF _ pp pn] by (simp add: rules1_def)
    then show ?thesis using None by (auto simp: rules1_def)
  next
    case (Some k)
    then have "findIndex p (rules0[k - 0 := p]) 0 = Inr (Some k)"
      using idx findIndex_update_self[OF _ pp pn] by blast
    then show ?thesis using Some by (auto simp: rules1_def)
  qed
  then obtain k1 where k1: "findIndex p rules1 0 = Inr (Some k1)" "rules1[k1 := p] = rules1" by blast
  define spec2 where "spec2 = spec_upsert (mk_spec_row appId ''permissions'' ''rules''
                           (JObj [(''rules'', JArr rules1)]) u b) spec1"
  have run2: "handleSetPermissions appId step b u spec1 =
                (Success (JObj [(''rulesCount'', JNum (int (length rules1)))]), spec2)"
    using handleSetPermissions_single[OF step(2) val ex1 k1(1), of b u] k1(2)
    by (simp add: spec2_def)
  have st2: "storedRules appId spec2 = rules1"
    unfolding spec2_def by (rule storedRules_upsert[OF uniq1])
  have cnt: "length (filter (hasTriple r a ro) rules1) = 1"
  proof (cases idx)
    case None
    then have "\<forall>x \<in> set rules0. \<not> hasTriple r a ro x"
      using idx by (simp add: findIndex_None_iff rm)
    then have "filter (hasTriple r a ro) rules0 = []" by (simp add: filter_empty_conv)
    then show ?thesis using None pp by (simp add: rules1_def rm)
  next
    case (Some k)
    from findIndex_Some[OF idx[unfolded Some]]
    have "k < length rules0" "hasTriple r a ro (rules0 ! k)" by (simp_all add: rm)
    then have "length (filter (hasTriple r a ro) (rules0[k := p])) = length (filter (hasTriple r a ro) rules0)"
      using pp by (intro filter_update_same) (simp_all add: rm)
    moreover have "length (filter (hasTriple r a ro) rules0) \<ge> 1"
    proof -
      have "rules0 ! k \<in> set (filter (hasTriple r a ro) rules0)"
        using \<open>k < length rules0\<close> \<open>hasTriple r a ro (rules0 ! k)\<close> by simp
      then have "filter (hasTriple r a ro) rules0 \<noteq> []" by (metis empty_iff list.set(1))
      then show ?thesis by (cases "filter (hasTriple r a ro) rules0") simp_all
    qed
    ultimately show ?thesis using rules0(3) Some by (simp add: rules1_def)
  qed
  show ?thesis
    by (simp add: disp run1 run2 st1 st2 cnt)
qed


theorem set_permissions_same_triple_twice_witness:
  "success (fst (executeStepHandler 0 1 (setPermissionsStep ordersReadUser) None None [])) \<and>
   storedRules 1 (snd (executeStepHandler 0 1 (setPermissionsStep ordersReadUser) None None
                    (snd (executeStepHandler 0 1 (setPermissionsStep ordersReadUser) None None []))))
     = [ordersReadUser]"
proof -
  have "(let (result1, spec1) = executeStepHandler 0 1 (setPermissionsStep ordersReadUser) None None [];
             (result2, spec2) = executeStepHandler 0 1 (setPermissionsStep ordersReadUser) None None spec1
         in success result1 \<and> success result2 \<and>
            length (filter (hasTriple ''orders'' ''read'' ''user'') (storedRules 1 spec2)) = 1 \<and>
            storedRules 1 spec2 = storedRules 1 spec1)"
    by (rule set_permissions_same_triple_twice[where p = ordersReadUser and ?rules0.0 = "[]"])
       (simp_all add: ordersReadUser_def setPermissionsStep_def validActions_def validRoles_def
          spec_select_def existingRulesOf_def)
  moreover have "storedRules 1 (snd (executeStepHandler 0 1 (setPermissionsStep ordersReadUser) None None []))
                   = [ordersReadUser]"
    by code_simp
  ultimately show ?thesis by (simp add: case_prod_unfold Let_def)
qed

lemma ruleMatches_no_role: "get_prop rule ''role'' = None \<Longrightarrow> \<not> ruleMatches np rule"
  by (simp add: ruleMatches_def js_or_def js_strict_eq_def split: option.splits json.splits)

text \<open>
  Claim C10. A permission entry without \<^verbatim>\<open>role\<close> passes validation and is stored as it
  is, with no role filled in. The merge compares a stored rule's role with the incoming
  role defaulted to \<^verbatim>\<open>"user"\<close>, so a stored rule without a role is matched by no
  submission at all. With the rule set readable, free of null entries, stored in at most
  one row and holding at most one rule \<open>(r, a, "user")\<close>, submitting the same role-less
  entry twice succeeds both times and the second submission is appended: the stored rules
  end with a second copy of the entry.
\<close>

theorem set_permissions_roleless_appended:
  assumes p: "get_prop p ''resource'' = Some (JStr r)" "r \<noteq> []"
             "get_prop p ''action'' = Some (JStr a)" "a \<in> set validActions"
             "get_prop p ''role'' = None"
      and step: "get_prop step ''type'' = Some (JStr ''set_permissions'')"
                "get_prop step ''permissions'' = Some (JArr [p])"
      and uniq: "length (spec_select appId ''permissions'' ''rules'' spec) \<le> 1"
      and rules0: "existingRulesOf (single (spec_select appId ''permissions'' ''rules'' spec)) = Inr rules0"
                  "JNull \<notin> set rules0"
                  "length (filter (hasTriple r a ''user'') rules0) \<le> 1"
  shows "(let (result1, spec1) = executeStepHandler now appId step b u spec;
              (result2, spec2) = executeStepHandler now appId step b u spec1
          in success result1 \<and> success result2 \<and>
             p \<in> set (storedRules appId spec1) \<and>
             (\<forall>np. \<not> ruleMatches np p) \<and>
             storedRules appId spec2 = storedRules appId spec1 @ [p] \<and>
             2 \<le> length (filter (\<lambda>rule. rule = p) (storedRules appId spec2)))"
proof -
  have pn: "p \<noteq> JNull" using p(1) by auto
  have val: "validatePermissions [p] = None" by (rule validate_roleless[OF p])
  have rm: "\<And>rule. ruleMatches p rule = hasTriple r a ''user'' rule"
    by (rule ruleMatches_roleless[OF p(1) p(3) p(5)])
  have npp: "\<not> hasTriple r a ''user'' p" using p(5) by (simp add: hasTriple_def)
  have disp: "\<And>s. executeStepHandler now appId step b u s = handleSetPermissions appId step b u s"
    using step(1) by (simp add: executeStepHandler_def)
  obtain idx where idx: "findIndex p rules0 0 = Inr idx"
    using findIndex_total[OF rules0(2)] by blast
  define rules1 where "rules1 = (case idx of Some k \<Rightarrow> rules0[k := p] | None \<Rightarrow> rules0 @ [p])"
  define spec1 where "spec1 = spec_upsert (mk_spec_row appId ''permissions'' ''rules''
                           (JObj [(''rules'', JArr rules1)]) u b) spec"
  have run1: "handleSetPermissions appId step b u spec =
                (Success (JObj [(''rulesCount'', JNum (int (length rules1)))]), spec1)"
    unfolding rules1_def spec1_def
    by (rule handleSetPermissions_single[OF step(2) val rules0(1) idx])
  have uniq1: "length (spec_select appId ''permissions'' ''rules'' spec1) \<le> 1"
    unfolding spec1_def by (rule spec_select_upsert_length[OF uniq])
  have ex1: "existingRulesOf (single (spec_select appId ''permissions'' ''rules'' spec1)) = Inr rules1"
    unfolding spec1_def by (rule existingRules_upsert[OF uniq])
  have st1: "storedRules appId spec1 = rules1"
    unfolding spec1_def by (rule storedRules_upsert[OF uniq])
  have in1: "p \<in> set rules1 \<and> JNull \<notin> set rules1 \<and> filter (hasTriple r a ''user'') rules1 = []"
  proof (cases idx)
    case None
    then have "\<forall>x \<in> set rules0. \<not> hasTriple r a ''user'' x"
      using idx by (simp add: findIndex_None_iff rm)
    then have "filter (hasTriple r a ''user'') rules0 = []" by (simp add: filter_empty_conv)
    then show ?thesis using None npp pn rules0(2) by (simp add: rules1_def)
  next
    case (Some k)
    from findIndex_Some[OF idx[unfolded Some]]
    have k: "k < length rules0" "hasTriple r a ''user'' (rules0 ! k)" by (simp_all add: rm)
    have "Suc (length (filter (hasTriple r a ''user'') (rules0[k := p]))) =
            length (filter (hasTriple r a ''user'') rules0)"
      using k npp by (intro filter_update_drop) simp_all
    then have "length (filter (hasTriple r a ''user'') (rules0[k := p])) = 0"
      using rules0(3) by linarith
    then have "filter (hasTriple r a ''user'') (rules0[k := p]) = []"
      by (rule iffD1[OF length_0_conv])
    moreover have "p \<in> set (rules0[k := p])" using k(1) by (simp add: set_update_memI)
    moreover have "JNull \<notin> set (rules0[k := p])"
      using rules0(2) pn set_update_subset_insert[of rules0 k p] by auto
    ultimately show ?thesis using Some by (simp add: rules1_def)
  qed
  then have none1: "findIndex p rules1 0 = Inr None"
    by (simp add: findIndex_None_iff rm filter_empty_conv)
  define spec2 where "spec2 = spec_upsert (mk_spec_row appId ''permissions'' ''rules''
                           (JObj [(''rules'', JArr (rules1 @ [p]))]) u b) spec1"
  have run2: "handleSetPermissions appId step b u spec1 =
                (Success (JObj [(''rulesCount'', JNum (int (length (rules1 @ [p]))))]), spec2)"
    using handleSetPermissions_single[OF step(2) val ex1 none1, of b u]
    by (simp add: spec2_def)
  have st2: "storedRules appId spec2 = rules1 @ [p]"
    unfolding spec2_def by (rule storedRules_upsert[OF uniq1])
  have twice: "2 \<le> length (filter (\<lambda>rule. rule = p) (rules1 @ [p]))"
  proof -
    have "filter (\<lambda>rule. rule = p) rules1 \<noteq> []"
      using in1 by (simp add: filter_empty_conv)
    then have "1 \<le> length (filter (\<lambda>rule. rule = p) rules1)"
      by (cases "filter (\<lambda>rule. rule = p) rules1") simp_all
    then show ?thesis by simp
  qed
  have nomatch: "\<forall>np. \<not> ruleMatches np p" using ruleMatches_no_role[OF p(5)] by blast
  have c1: "p \<in> set rules1" using in1 by simp
  show ?thesis
    unfolding disp run1 run2 Let_def prod.case st1 st2
    using c1 twice nomatch by simp
qed

theorem set_permissions_roleless_appended_witness:
  "success (fst (executeStepHandler 0 1 (setPermissionsStep ordersRead) None None [])) \<and>
   storedRules 1 (snd (executeStepHandler 0 1 (setPermissionsStep ordersRead) None None
                    (snd (executeStepHandler 0 1 (setPermissionsStep ordersRead) None None []))))
     = [ordersRead, ordersRead]"
proof -
  have "(let (result1, spec1) = executeStepHandler 0 1 (setPermissionsStep ordersRead) None None [];
             (result2, spec2) = executeStepHandler 0 1 (setPermissionsStep ordersRead) None None spec1
         in success result1 \<and> success result2 \<and>
            ordersRead \<in> set (storedRules 1 spec1) \<and>
            (\<forall>np. \<not> ruleMatches np ordersRead) \<and>
            storedRules 1 spec2 = storedRules 1 spec1 @ [ordersRead] \<and>
            2 \<le> length (filter (\<lambda>rule. rule = ordersRead) (storedRules 1 spec2)))"
    by (rule set_permissions_roleless_appended[where r = "''orders''" and a = "''read''" and ?rules0.0 = "[]"])
       (simp_all add: ordersRead_def setPermissionsStep_def validActions_def
          spec_select_def existingRulesOf_def)
  moreover have "storedRules 1 (snd (executeStepHandler 0 1 (setPermissionsStep ordersRead) None None []))
                   = [ordersRead]"
    by code_simp
  ultimately show ?thesis by (simp add: case_prod_unfold Let_def)
qed

section \<open>Step Expander: idempotence and orphan purge\<close>

lemma existingSteps_nonempty_iff:
  "existingSteps operation steps \<noteq> [] \<longleftrightarrow>
     (\<exists>s \<in> set steps. operation_id s = Some (op_id operation) \<and> step_app_id s = op_app_id operation)"
  by (auto simp: existingSteps_def filter_empty_conv)

lemma stepsToInsert_rows:
  "stepsToInsert operation now base i ds = Inr rows \<Longrightarrow>
     length rows = length ds \<and>
     (\<forall>s \<in> set rows. operation_id s = Some (op_id operation) \<and> step_app_id s = op_app_id operation \<and>
        step_status s = Pending)"
proof (induction ds arbitrary: i rows)
  case Nil
  then show ?case by simp
next
  case (Cons a ds)
  then show ?case by (auto split: if_splits sum.splits)
qed

lemma stepsToInsert_exception_indep:
  "stepsToInsert operation now base i ds = Inl e \<Longrightarrow> stepsToInsert operation now' base' i ds = Inl e"
proof (induction ds arbitrary: i)
  case Nil
  then show ?case by simp
next
  case (Cons a ds)
  then show ?case by (auto split: if_splits sum.splits)
qed

lemma settled_skip: "settled operation d \<Longrightarrow> expandOperation now operation d = (Inr None, d)"
  by (auto simp: settled_def expandOperation_def split: json.splits)

lemma skip_settled: "expandOperation now operation d = (Inr None, d') \<Longrightarrow> settled operation d \<and> d' = d"
  by (auto simp: settled_def expandOperation_def Let_def split: json.splits if_splits sum.splits)

lemma expandOperation_log: "operations_log (snd (expandOperation now operation d)) = operations_log d"
  by (auto simp: expandOperation_def Let_def split: json.splits if_splits sum.splits)

lemma expandOperation_steps:
  "\<exists>rows. execution_steps (snd (expandOperation now operation d)) =
            (if settled operation d then execution_steps d
             else deleteOrphans (op_app_id operation) (execution_steps d) @ rows) \<and>
          (\<forall>s \<in> set rows. operation_id s = Some (op_id operation) \<and> step_app_id s = op_app_id operation \<and>
             step_status s = Pending) \<and>
          (case fst (expandOperation now operation d) of
             Inr (Some n) \<Rightarrow> rows \<noteq> [] \<and> length rows = n | _ \<Rightarrow> rows = [])"
proof (cases "settled operation d")
  case True
  then show ?thesis using settled_skip[OF True, of now] by (intro exI[of _ "[]"]) simp
next
  case False
  then obtain ds where ds: "operations operation = JArr ds" "ds \<noteq> []"
    and ex: "existingSteps operation (execution_steps d) = []"
    by (auto simp: settled_def split: json.splits)
  show ?thesis
  proof (cases "stepsToInsert operation now (next_uuid d) 0 ds")
    case (Inl e)
    then show ?thesis using False ds ex
      by (intro exI[of _ "[]"]) (simp add: expandOperation_def Let_def)
  next
    case (Inr rows)
    from stepsToInsert_rows[OF Inr] ds(2) have "rows \<noteq> []" by auto
    then show ?thesis using False ds ex Inr stepsToInsert_rows[OF Inr]
      by (intro exI[of _ rows]) (simp add: expandOperation_def Let_def)
  qed
qed

lemma settled_mono: "settled op' d \<Longrightarrow> settled op' (snd (expandOperation now operation d))"
proof -
  assume s: "settled op' d"
  obtain rows where r: "execution_steps (snd (expandOperation now operation d)) =
            (if settled operation d then execution_steps d
             else deleteOrphans (op_app_id operation) (execution_steps d) @ rows)"
    using expandOperation_steps[of now operation d] by blast
  show ?thesis
    using s unfolding settled_def r existingSteps_nonempty_iff
    by (auto simp: deleteOrphans_def)
qed

lemma settled_after:
  "fst (expandOperation now operation d) = Inr r \<Longrightarrow> settled operation (snd (expandOperation now operation d))"
proof (cases "settled operation d")
  case True
  then show ?thesis using settled_skip[OF True, of now] by simp
next
  case False
  assume a: "fst (expandOperation now operation d) = Inr r"
  obtain rows where r: "execution_steps (snd (expandOperation now operation d)) =
               deleteOrphans (op_app_id operation) (execution_steps d) @ rows"
      "\<forall>s \<in> set rows. operation_id s = Some (op_id operation) \<and> step_app_id s = op_app_id operation \<and>
             step_status s = Pending"
      "(case fst (expandOperation now operation d) of
             Inr (Some n) \<Rightarrow> rows \<noteq> [] \<and> length rows = n | _ \<Rightarrow> rows = [])"
    using expandOperation_steps[of now operation d] False by auto
  have "r \<noteq> None" using a False skip_settled[of now operation d "snd (expandOperation now operation d)"]
    by (metis prod.collapse)
  then have "rows \<noteq> []" using r(3) a by auto
  then obtain s where "s \<in> set rows" by (cases rows) auto
  then show ?thesis using r(1,2) unfolding settled_def existingSteps_nonempty_iff by auto
qed

lemma deleteOrphans_idem: "deleteOrphans a (deleteOrphans a steps) = deleteOrphans a steps"
  by (simp add: deleteOrphans_def)

lemma expandOperation_exception_again:
  assumes "expandOperation now operation d = (Inl e, d')"
  shows "expandOperation now' operation d' = (Inl e, d')"
proof -
  from assms obtain ds where ds: "operations operation = JArr ds" "ds \<noteq> []"
    and ex: "existingSteps operation (execution_steps d) = []"
    and ins: "stepsToInsert operation now (next_uuid d) 0 ds = Inl e"
    and d': "d' = d\<lparr>execution_steps := deleteOrphans (op_app_id operation) (execution_steps d)\<rparr>"
    by (auto simp: expandOperation_def Let_def split: json.splits if_splits sum.splits)
  have ex': "existingSteps operation (execution_steps d') = []"
    using ex unfolding d' by (auto simp: existingSteps_def deleteOrphans_def filter_empty_conv)
  have ins': "stepsToInsert operation now' (next_uuid d') 0 ds = Inl e"
    by (rule stepsToInsert_exception_indep[OF ins])
  show ?thesis
    using ds ex' ins' by (simp add: expandOperation_def Let_def d' deleteOrphans_idem)
qed

lemma expandLoop_settled_prefix:
  "\<forall>operation \<in> set pre. settled operation d \<Longrightarrow>
     expandLoop now (pre @ ops) d t ids = expandLoop now ops d t ids"
  by (induction pre) (simp_all add: settled_skip)

lemma expandLoop_log: "operations_log (snd (expandLoop now ops d t ids)) = operations_log d"
proof (induction ops arbitrary: d t ids)
  case Nil
  then show ?case by simp
next
  case (Cons operation ops)
  show ?case
  proof (cases "expandOperation now operation d")
    case (Pair r d')
    then have "operations_log d' = operations_log d"
      using expandOperation_log[of now operation d] by simp
    then show ?thesis using Pair Cons.IH
      by (cases r) (auto split: option.splits)
  qed
qed

lemma expandLoop_again:
  "\<forall>operation \<in> set pre. settled operation d \<Longrightarrow>
     snd (expandLoop now' (pre @ ops) (snd (expandLoop now ops d t ids)) t' ids') =
     snd (expandLoop now ops d t ids)"
proof (induction ops arbitrary: pre d t ids)
  case Nil
  then show ?case using expandLoop_settled_prefix[of pre d now' "[]" t' ids'] by simp
next
  case (Cons operation ops)
  show ?case
  proof (cases "expandOperation now operation d")
    case (Pair r d')
    have d': "d' = snd (expandOperation now operation d)" using Pair by simp
    have pre': "\<forall>operation \<in> set pre. settled operation d'"
      using Cons.prems settled_mono unfolding d' by blast
    show ?thesis
    proof (cases r)
      case (Inl e)
      have "expandOperation now' operation d' = (Inl e, d')"
        using expandOperation_exception_again Pair Inl by blast
      then have "snd (expandLoop now' (operation # ops) d' t' ids') = d'" by simp
      then have "snd (expandLoop now' (pre @ operation # ops) d' t' ids') = d'"
        using expandLoop_settled_prefix[OF pre'] by simp
      then show ?thesis using Pair Inl by simp
    next
      case (Inr x)
      have so: "settled operation d'"
        unfolding d' by (rule settled_after[of now operation d x]) (simp add: Pair Inr)
      have pre2: "\<forall>operation \<in> set (pre @ [operation]). settled operation d'"
        using pre' so by simp
      show ?thesis
        using Cons.IH[OF pre2] Pair Inr
        by (cases x) simp_all
    qed
  qed
qed

lemma expand_handler_snd:
  "snd (expand_operations_handler now req d) =
     (if expand_method req \<noteq> ''POST'' \<or> (expand_appId req = None \<and> expand_operationId req = None)
      then d
      else snd (expandLoop now (pendingOperations (expand_appId req) (expand_operationId req)
                                  (operations_log d)) d 0 []))"
  by (simp add: expand_operations_handler_def Let_def split: prod.splits sum.splits)

lemma expand_handler_log:
  "operations_log (snd (expand_operations_handler now req d)) = operations_log d"
  by (simp add: expand_handler_snd expandLoop_log)

lemma expand_handler_again:
  "snd (expand_operations_handler now' req (snd (expand_operations_handler now req d))) =
   snd (expand_operations_handler now req d)"
  using expandLoop_again[of "[]" d now' "pendingOperations (expand_appId req) (expand_operationId req)
                                  (operations_log d)" now 0 "[]" 0 "[]"]
  by (simp add: expand_handler_snd expandLoop_log)

lemma linked_expandOperation:
  assumes "op_id operation = oid \<longrightarrow> existingSteps operation (execution_steps d) \<noteq> []"
  shows "linkedSteps oid (execution_steps (snd (expandOperation now operation d))) =
         linkedSteps oid (execution_steps d)"
proof (cases "settled operation d")
  case True
  then show ?thesis by (simp add: settled_skip)
next
  case False
  then have ne: "op_id operation \<noteq> oid" using assms by (auto simp: settled_def)
  obtain rows where r: "execution_steps (snd (expandOperation now operation d)) =
               deleteOrphans (op_app_id operation) (execution_steps d) @ rows"
      "\<forall>s \<in> set rows. operation_id s = Some (op_id operation) \<and> step_app_id s = op_app_id operation \<and>
             step_status s = Pending"
    using expandOperation_steps[of now operation d] False by auto
  have "filter (\<lambda>s. operation_id s = Some oid) rows = []"
    using r(2) ne by (auto simp: filter_empty_conv)
  moreover have "filter (\<lambda>s. operation_id s = Some oid) (deleteOrphans (op_app_id operation) (execution_steps d))
                 = filter (\<lambda>s. operation_id s = Some oid) (execution_steps d)"
    unfolding deleteOrphans_def by (auto intro: filter_cong)
  ultimately show ?thesis by (simp add: linkedSteps_def r(1))
qed

lemma linked_expandLoop:
  "\<forall>operation \<in> set ops. op_id operation = oid \<longrightarrow> existingSteps operation (execution_steps d) \<noteq> [] \<Longrightarrow>
     linkedSteps oid (execution_steps (snd (expandLoop now ops d t ids))) =
     linkedSteps oid (execution_steps d)"
proof (induction ops arbitrary: d t ids)
  case Nil
  then show ?case by simp
next
  case (Cons operation ops)
  obtain r d' where P: "expandOperation now operation d = (r, d')" by (cases "expandOperation now operation d")
  have d': "d' = snd (expandOperation now operation d)" using P by simp
  have l: "linkedSteps oid (execution_steps d') = linkedSteps oid (execution_steps d)"
    unfolding d' using Cons.prems by (intro linked_expandOperation) simp
  have keep: "\<forall>operation \<in> set ops. op_id operation = oid \<longrightarrow> existingSteps operation (execution_steps d') \<noteq> []"
  proof (intro ballI impI)
    fix op' assume "op' \<in> set ops" "op_id op' = oid"
    then have "existingSteps op' (execution_steps d) \<noteq> []" using Cons.prems by simp
    then have "settled op' d" by (simp add: settled_def)
    then have "settled op' d'" unfolding d' by (rule settled_mono)
    moreover have "existingSteps op' (execution_steps d') \<noteq> []"
    proof -
      obtain s where s: "s \<in> set (execution_steps d)" "operation_id s = Some (op_id op')"
          "step_app_id s = op_app_id op'"
        using \<open>existingSteps op' (execution_steps d) \<noteq> []\<close> unfolding existingSteps_nonempty_iff by blast
      then have "s \<in> set (linkedSteps oid (execution_steps d))"
        using \<open>op_id op' = oid\<close> by (simp add: linkedSteps_def)
      then have "s \<in> set (linkedSteps oid (execution_steps d'))" using l by simp
      then have "s \<in> set (execution_steps d')" by (simp add: linkedSteps_def)
      then show ?thesis using s(2,3) unfolding existingSteps_nonempty_iff by blast
    qed
    ultimately show "existingSteps op' (execution_steps d') \<noteq> []" by simp
  qed
  show ?case
  proof (cases r)
    case (Inl e)
    then show ?thesis using P l by simp
  next
    case (Inr x)
    then show ?thesis using P l Cons.IH[OF keep] by (cases x) simp_all
  qed
qed

lemma pendingOperations_subset: "set (pendingOperations a b ops) \<subseteq> set ops"
  by (auto simp: pendingOperations_def)

lemma linked_handler:
  assumes "\<forall>operation \<in> set (operations_log d).
             op_id operation = oid \<longrightarrow> existingSteps operation (execution_steps d) \<noteq> []"
  shows "linkedSteps oid (execution_steps (snd (expand_operations_handler now req d))) =
         linkedSteps oid (execution_steps d)"
proof -
  have "\<forall>operation \<in> set (pendingOperations (expand_appId req) (expand_operationId req) (operations_log d)).
             op_id operation = oid \<longrightarrow> existingSteps operation (execution_steps d) \<noteq> []"
    using assms pendingOperations_subset by blast
  then show ?thesis by (simp add: expand_handler_snd linked_expandLoop)
qed

lemma orphans_purged:
  assumes "fst (expandOperation now operation d) \<noteq> Inr None"
  shows "orphanSteps (op_app_id operation) (execution_steps (snd (expandOperation now operation d))) = []"
proof -
  have ns: "\<not> settled operation d" using assms settled_skip by fastforce
  obtain rows where r: "execution_steps (snd (expandOperation now operation d)) =
               deleteOrphans (op_app_id operation) (execution_steps d) @ rows"
      "\<forall>s \<in> set rows. operation_id s = Some (op_id operation) \<and> step_app_id s = op_app_id operation \<and>
             step_status s = Pending"
    using expandOperation_steps[of now operation d] ns by auto
  show ?thesis
    using r(2) by (auto simp: orphanSteps_def r(1) deleteOrphans_def filter_empty_conv)
qed

lemma expand_example: "expand_operations_handler 0 expandRequest exampleDb = (ExpandOk 2 [10], expandedDb)"
  by code_simp

text \<open>
  Claim C5. An operation of which a step of its app already carries the
  \<^verbatim>\<open>operation_id\<close> is passed over: the loop body changes nothing. Whatever the
  request, the steps that refer to such an operation are the same after the route as
  before. Running the route a second time leaves the database of the first run as it is,
  so no step is duplicated. And whenever the body does not pass an operation over
  (it expands it, or fails while building the rows), no step of the operation's app with a
  null \<^verbatim>\<open>operation_id\<close> is left: the orphans are deleted before the new rows are
  inserted.
\<close>

theorem expander_idempotent_and_purges_orphans:
  "(existingSteps operation (execution_steps d) \<noteq> [] \<longrightarrow>
      expandOperation now operation d = (Inr None, d)) \<and>
   ((\<forall>operation \<in> set (operations_log d).
        op_id operation = oid \<longrightarrow> existingSteps operation (execution_steps d) \<noteq> []) \<longrightarrow>
      linkedSteps oid (execution_steps (snd (expand_operations_handler now req d))) =
      linkedSteps oid (execution_steps d)) \<and>
   snd (expand_operations_handler now' req (snd (expand_operations_handler now req d))) =
     snd (expand_operations_handler now req d) \<and>
   (fst (expandOperation now operation d) \<noteq> Inr None \<longrightarrow>
      orphanSteps (op_app_id operation)
        (execution_steps (snd (expandOperation now operation d))) = [])"
proof (intro conjI impI)
  assume "existingSteps operation (execution_steps d) \<noteq> []"
  then have "settled operation d" by (simp add: settled_def)
  then show "expandOperation now operation d = (Inr None, d)" by (rule settled_skip)
next
  assume "\<forall>operation \<in> set (operations_log d).
        op_id operation = oid \<longrightarrow> existingSteps operation (execution_steps d) \<noteq> []"
  then show "linkedSteps oid (execution_steps (snd (expand_operations_handler now req d))) =
      linkedSteps oid (execution_steps d)"
    by (rule linked_handler)
next
  show "snd (expand_operations_handler now' req (snd (expand_operations_handler now req d))) =
     snd (expand_operations_handler now req d)"
    by (rule expand_handler_again)
next
  assume "fst (expandOperation now operation d) \<noteq> Inr None"
  then show "orphanSteps (op_app_id operation)
        (execution_steps (snd (expandOperation now operation d))) = []"
    by (rule orphans_purged)
qed

theorem expander_witness:
  "expand_operations_handler 0 expandRequest exampleDb = (ExpandOk 2 [10], expandedDb) \<and>
   expand_operations_handler 7 expandRequest expandedDb = (ExpandOk 0 [], expandedDb) \<and>
   existingSteps exampleOperation (execution_steps expandedDb) \<noteq> [] \<and>
   expandOperation 7 exampleOperation expandedDb = (Inr None, expandedDb) \<and>
   linkedSteps 10 (execution_steps (snd (expand_operations_handler 7 expandRequest expandedDb))) =
     [expandedStep0, expandedStep1] \<and>
   fst (expandOperation 0 exampleOperation exampleDb) \<noteq> Inr None \<and>
   orphanSteps 1 (execution_steps exampleDb) = [orphanStep] \<and>
   orphanSteps 1 (execution_steps (snd (expandOperation 0 exampleOperation exampleDb))) = []"
proof -
  have ex: "existingSteps exampleOperation (execution_steps expandedDb) \<noteq> []" by code_simp
  have all: "\<forall>operation \<in> set (operations_log expandedDb).
        op_id operation = 10 \<longrightarrow> existingSteps operation (execution_steps expandedDb) \<noteq> []"
    using ex by (simp add: expandedDb_def exampleDb_def)
  have ne: "fst (expandOperation 0 exampleOperation exampleDb) \<noteq> Inr None" by code_simp
  have link: "linkedSteps 10 (execution_steps expandedDb) = [expandedStep0, expandedStep1]" by code_simp
  have orph: "orphanSteps 1 (execution_steps exampleDb) = [orphanStep]" by code_simp
  have app: "op_app_id exampleOperation = 1" by (simp add: exampleOperation_def)
  have second: "expand_operations_handler 7 expandRequest expandedDb = (ExpandOk 0 [], expandedDb)"
    by code_simp
  note t1 = expander_idempotent_and_purges_orphans[of exampleOperation expandedDb 7 10 expandRequest 7]
  note t2 = expander_idempotent_and_purges_orphans[of exampleOperation exampleDb 0 10 expandRequest 7]
  from t1 ex all have a: "expandOperation 7 exampleOperation expandedDb = (Inr None, expandedDb)"
    and b: "linkedSteps 10 (execution_steps (snd (expand_operations_handler 7 expandRequest expandedDb))) =
              linkedSteps 10 (execution_steps expandedDb)"
    by blast+
  from t2 ne have c: "orphanSteps (op_app_id exampleOperation)
        (execution_steps (snd (expandOperation 0 exampleOperation exampleDb))) = []"
    by blast
  show ?thesis
    using expand_example second ex a b c ne link orph app by simp
qed

section \<open>Run Loop: selection, claiming, outcome\<close>

lemma single_take1: "single (take 1 xs) = (case xs of [] \<Rightarrow> None | x # _ \<Rightarrow> Some x)"
  by (cases xs) simp_all

lemma sort_key_hd_min:
  assumes "sort_key f xs = y # ys"
  shows "y \<in> set xs \<and> (\<forall>x \<in> set xs. f y \<le> f x)"
proof -
  have "sorted (map f (sort_key f xs))" by (rule sorted_sort_key)
  then have s: "sorted (map f (y # ys))" by (simp only: assms)
  have "set (sort_key f xs) = set xs" by (rule set_sort)
  then have e: "set (y # ys) = set xs" by (simp only: assms)
  from s have "\<forall>x \<in> set (y # ys). f y \<le> f x" by auto
  then show ?thesis unfolding e[symmetric] by simp
qed

lemma selectNextPending_Some:
  assumes "selectNextPending appId steps = Some step"
  shows "step \<in> set steps \<and> step_app_id step = appId \<and> step_status step = Pending \<and>
         (\<forall>s \<in> set steps. step_app_id s = appId \<and> step_status s = Pending \<longrightarrow>
            step_index step \<le> step_index s)"
proof -
  define fs where "fs = filter (\<lambda>s. step_app_id s = appId \<and> step_status s = Pending) steps"
  define xs where "xs = sort_key step_index fs"
  have sel: "selectNextPending appId steps = (case xs of [] \<Rightarrow> None | x # _ \<Rightarrow> Some x)"
    unfolding selectNextPending_def xs_def fs_def by (rule single_take1)
  then obtain ys where "xs = step # ys"
    using assms by (cases xs) simp_all
  then have "sort_key step_index fs = step # ys" by (simp add: xs_def)
  from sort_key_hd_min[OF this]
  have "step \<in> set fs" "\<forall>x \<in> set fs. step_index step \<le> step_index x" by simp_all
  then show ?thesis unfolding fs_def by simp
qed

lemma selectNextPending_None:
  "selectNextPending appId steps = None \<longleftrightarrow>
     (\<forall>s \<in> set steps. \<not> (step_app_id s = appId \<and> step_status s = Pending))"
proof -
  define fs where "fs = filter (\<lambda>s. step_app_id s = appId \<and> step_status s = Pending) steps"
  define xs where "xs = sort_key step_index fs"
  have sel: "selectNextPending appId steps = (case xs of [] \<Rightarrow> None | x # _ \<Rightarrow> Some x)"
    unfolding selectNextPending_def xs_def fs_def by (rule single_take1)
  have "set xs = set fs" unfolding xs_def by (rule set_sort)
  then have "xs = [] \<longleftrightarrow> fs = []" by (metis set_empty)
  moreover have "selectNextPending appId steps = None \<longleftrightarrow> xs = []"
    unfolding sel by (cases xs) simp_all
  ultimately show ?thesis unfolding fs_def by (simp add: filter_empty_conv)
qed

lemma updateStatus_fst:
  "fst (updateStatus sid st steps) = map (\<lambda>s. if step_id s = sid then s\<lparr>step_status := st\<rparr> else s) steps"
  by (simp add: updateStatus_def)

lemma updateStatus_twice:
  "fst (updateStatus sid st2 (fst (updateStatus sid st1 steps))) = fst (updateStatus sid st2 steps)"
  unfolding updateStatus_fst by (induction steps) simp_all

lemma updateStatus_rows_empty:
  "snd (updateStatus sid st steps) = [] \<longleftrightarrow> (\<forall>s \<in> set steps. step_id s \<noteq> sid)"
  by (simp add: updateStatus_def filter_empty_conv)

lemma updateStatus_ids: "map step_id (fst (updateStatus sid st steps)) = map step_id steps"
  unfolding updateStatus_fst by (induction steps) simp_all

lemma updateStatus_rows_after:
  "snd (updateStatus sid st (fst (updateStatus sid st' steps))) = [] \<longleftrightarrow>
   snd (updateStatus sid st' steps) = []"
proof -
  have "(\<forall>s \<in> set xs. step_id s \<noteq> sid) \<longleftrightarrow> sid \<notin> set (map step_id xs)" for xs :: "step_row list"
    by auto
  then show ?thesis
    unfolding updateStatus_rows_empty by (simp only: updateStatus_ids)
qed

lemma updateStatus_no_rows:
  "\<forall>s \<in> set steps. step_id s \<noteq> sid \<Longrightarrow> fst (updateStatus sid st steps) = steps"
  unfolding updateStatus_fst by (induction steps) simp_all

lemma updateStatus_others:
  "filter (\<lambda>s. step_id s \<noteq> sid) (fst (updateStatus sid st steps)) = filter (\<lambda>s. step_id s \<noteq> sid) steps"
  unfolding updateStatus_fst by (induction steps) simp_all

lemma updateStatus_error_message:
  "map error_message (fst (updateStatus sid st steps)) = map error_message steps"
  unfolding updateStatus_fst by (induction steps) simp_all

lemma executeStep_frame:
  "executeStep now step appId b u d = (r, d') \<Longrightarrow> d' = d\<lparr>app_spec := app_spec d'\<rparr>"
  by (auto simp: executeStep_def Let_def split: sum.splits prod.splits if_splits StepResult.splits)


lemma run_step_handler_cases:
  "run_step_handler now req d =
     (if run_method req \<noteq> ''POST'' then (RunError 405 RunMethodNotAllowed, d)
      else case run_app_id req of
             None \<Rightarrow> (RunError 400 MissingAppId, d)
           | Some appId \<Rightarrow>
               (case selectNextPending appId (execution_steps d) of
                  None \<Rightarrow> (RunDone, d)
                | Some step \<Rightarrow> runClaimed now appId step d))"
  by (simp add: run_step_handler_def)


lemma executeStep_handler:
  assumes "resolveStepData step (operations_log d) = Inr (ty, payload)" "truthy ty"
  shows "executeStep now step appId b u d =
           (case executeStepHandler now appId (JObj (spread_into [(''type'', the ty)] (Some payload)))
                   b u (app_spec d) of
              (Failure e, spec') \<Rightarrow> (Inl (HandlerFailed e), d\<lparr>app_spec := spec'\<rparr>)
            | (Success r, spec') \<Rightarrow> (Inr (Success r), d\<lparr>app_spec := spec'\<rparr>))"
  using assms by (simp add: executeStep_def Let_def)

lemma runClaimed_outcome:
  assumes rows: "\<exists>s \<in> set (execution_steps d). step_id s = step_id step"
      and app: "single (filter (\<lambda>a. app_id a = appId) (apps d)) = Some app" "app_user_id app = Some u"
      and ex: "executeStep now step appId (lookupBuildRequestId step (Some app) (operations_log d)) (Some u)
                 (d\<lparr>execution_steps := fst (updateStatus (step_id step) Processing (execution_steps d))\<rparr>)
               = (r, d2)"
  shows "runClaimed now appId step d =
           (case r of
              Inl e \<Rightarrow> (RunError 500 (StepExecutionFailed e),
                        d\<lparr>execution_steps := fst (updateStatus (step_id step) Failed (execution_steps d)),
                          app_spec := app_spec d2\<rparr>)
            | Inr res \<Rightarrow> (RunApplied step,
                          d\<lparr>execution_steps := fst (updateStatus (step_id step) Applied (execution_steps d)),
                            app_spec := app_spec d2\<rparr>))"
proof -
  let ?sid = "step_id step"
  let ?d1 = "d\<lparr>execution_steps := fst (updateStatus ?sid Processing (execution_steps d))\<rparr>"
  have rows1: "snd (updateStatus ?sid Processing (execution_steps d)) \<noteq> []"
    using rows by (simp add: updateStatus_rows_empty)
  have d2: "d2 = ?d1\<lparr>app_spec := app_spec d2\<rparr>" by (rule executeStep_frame[OF ex])
  have s2: "execution_steps d2 = fst (updateStatus ?sid Processing (execution_steps d))"
    by (subst d2) simp
  have rows2: "snd (updateStatus ?sid Applied (execution_steps d2)) \<noteq> []"
    using rows1 unfolding s2 by (simp add: updateStatus_rows_after)
  have upd: "\<And>st. d2\<lparr>execution_steps := fst (updateStatus ?sid st (execution_steps d2))\<rparr> =
                 d\<lparr>execution_steps := fst (updateStatus ?sid st (execution_steps d)), app_spec := app_spec d2\<rparr>"
    unfolding s2 updateStatus_twice by (subst d2) simp
  show ?thesis
  proof (cases r)
    case (Inl e)
    have "runClaimed now appId step d =
            (RunError 500 (StepExecutionFailed e),
             d2\<lparr>execution_steps := fst (updateStatus ?sid Failed (execution_steps d2))\<rparr>)"
      using rows1 app ex Inl
      by (simp add: runClaimed_def Let_def split_def markFailed_def)
    then show ?thesis using Inl by (simp only: upd sum.case)
  next
    case (Inr res)
    have "runClaimed now appId step d =
            (RunApplied step,
             d2\<lparr>execution_steps := fst (updateStatus ?sid Applied (execution_steps d2))\<rparr>)"
      using rows1 rows2 app ex Inr
      by (simp add: runClaimed_def Let_def split_def markFailed_def)
    then show ?thesis using Inr by (simp only: upd sum.case)
  qed
qed

lemma updateStatus_pending_subset:
  assumes "st \<noteq> Pending" "s \<in> set (fst (updateStatus sid st steps))" "step_status s = Pending"
  shows "s \<in> set steps \<and> step_id s \<noteq> sid"
proof -
  from assms(2) obtain x where x: "x \<in> set steps"
      "s = (if step_id x = sid then x\<lparr>step_status := st\<rparr> else x)"
    unfolding updateStatus_fst by auto
  have "step_id x \<noteq> sid"
  proof
    assume "step_id x = sid"
    then have "step_status s = st" using x(2) by simp
    then show False using assms(1,3) by simp
  qed
  then show ?thesis using x by simp
qed

lemma run_step_handler_claim:
  assumes "run_method req = ''POST''" "run_app_id req = Some appId"
      and "selectNextPending appId (execution_steps d) = Some step"
  shows "\<exists>st. execution_steps (snd (run_step_handler now req d)) =
                 map (\<lambda>s. if step_id s = step_id step then s\<lparr>step_status := st\<rparr> else s)
                   (execution_steps d) \<and>
              (fst (run_step_handler now req d) = RunApplied step \<and> st = Applied \<or>
               (\<exists>e. fst (run_step_handler now req d) = RunError 500 (StepExecutionFailed e)) \<and> st = Failed \<or>
               fst (run_step_handler now req d) = RunError 500 NoUserId \<and> st = Processing)"
proof -
  let ?sid = "step_id step"
  let ?d1 = "d\<lparr>execution_steps := fst (updateStatus ?sid Processing (execution_steps d))\<rparr>"
  have h: "run_step_handler now req d = runClaimed now appId step d"
    using assms by (simp add: run_step_handler_def)
  have inn: "step \<in> set (execution_steps d)" using selectNextPending_Some[OF assms(3)] by simp
  then have rows: "\<exists>s \<in> set (execution_steps d). step_id s = ?sid" by blast
  then have rows1: "snd (updateStatus ?sid Processing (execution_steps d)) \<noteq> []"
    by (simp add: updateStatus_rows_empty)
  let ?app = "single (filter (\<lambda>a. app_id a = appId) (apps d))"
  let ?userId = "case ?app of Some a \<Rightarrow> app_user_id a | None \<Rightarrow> None"
  show ?thesis
  proof (cases "?userId = None")
    case True
    then have "runClaimed now appId step d = (RunError 500 NoUserId, ?d1)"
      using rows1 by (simp add: runClaimed_def Let_def split_def)
    then show ?thesis unfolding h
      by (intro exI[of _ Processing]) (simp add: updateStatus_fst)
  next
    case False
    then obtain app u where app: "?app = Some app" "app_user_id app = Some u"
      by (cases ?app) auto
    obtain r d2 where ex: "executeStep now step appId (lookupBuildRequestId step (Some app) (operations_log d))
          (Some u) ?d1 = (r, d2)"
      by (cases "executeStep now step appId (lookupBuildRequestId step (Some app) (operations_log d))
          (Some u) ?d1")
    note out = runClaimed_outcome[OF rows app ex]
    show ?thesis
    proof (cases r)
      case (Inl e)
      then show ?thesis unfolding h out
        by (intro exI[of _ Failed]) (simp add: updateStatus_fst)
    next
      case (Inr res)
      then show ?thesis unfolding h out
        by (intro exI[of _ Applied]) (simp add: updateStatus_fst)
    qed
  qed
qed

lemma run_step_handler_done:
  assumes "run_method req = ''POST''" "run_app_id req = Some appId"
      and "\<forall>s \<in> set (execution_steps d). \<not> (step_app_id s = appId \<and> step_status s = Pending)"
  shows "run_step_handler now req d = (RunDone, d)"
proof -
  have "selectNextPending appId (execution_steps d) = None"
    using assms(3) by (simp only: selectNextPending_None)
  then show ?thesis using assms(1,2) by (simp add: run_step_handler_def)
qed

lemma run_step_handler_pending_subset:
  assumes "s \<in> set (execution_steps (snd (run_step_handler now req d)))" "step_status s = Pending"
  shows "s \<in> set (execution_steps d)"
proof (cases "run_method req = ''POST'' \<and> run_app_id req \<noteq> None \<and>
              selectNextPending (the (run_app_id req)) (execution_steps d) \<noteq> None")
  case False
  then have "snd (run_step_handler now req d) = d"
    by (auto simp: run_step_handler_def split: option.splits)
  then show ?thesis using assms by simp
next
  case True
  then obtain appId step where a: "run_method req = ''POST''" "run_app_id req = Some appId"
      "selectNextPending appId (execution_steps d) = Some step" by auto
  from run_step_handler_claim[OF a, of now] obtain st where
    st: "execution_steps (snd (run_step_handler now req d)) =
                 fst (updateStatus (step_id step) st (execution_steps d))" "st \<noteq> Pending"
    unfolding updateStatus_fst by auto
  show ?thesis using updateStatus_pending_subset[OF st(2) assms(1)[unfolded st(1)] assms(2)] by simp
qed

lemma invocations_pending_subset:
  "s \<in> set (execution_steps (invocations nows req d)) \<Longrightarrow> step_status s = Pending \<Longrightarrow>
     s \<in> set (execution_steps d)"
proof (induction nows arbitrary: d)
  case Nil
  then show ?case by simp
next
  case (Cons now nows)
  from Cons.IH[of "snd (run_step_handler now req d)"] Cons.prems
  have "s \<in> set (execution_steps (snd (run_step_handler now req d)))" by simp
  then show ?case using Cons.prems(2) by (rule run_step_handler_pending_subset)
qed

lemma claimed_in_increasing_order:
  assumes req: "run_method req = ''POST''" "run_app_id req = Some appId"
      and s1: "selectNextPending appId (execution_steps d) = Some s1"
      and s2: "selectNextPending appId
                 (execution_steps (invocations nows req (snd (run_step_handler now req d)))) = Some s2"
      and op: "operation_id s1 = Some oid" "operation_id s2 = Some oid"
      and uniq: "\<forall>a \<in> set (execution_steps d). \<forall>b \<in> set (execution_steps d).
                   operation_id a = Some oid \<and> operation_id b = Some oid \<and> step_index a = step_index b
                   \<longrightarrow> step_id a = step_id b"
  shows "step_index s1 < step_index s2"
proof -
  note m1 = selectNextPending_Some[OF s1]
  note m2 = selectNextPending_Some[OF s2]
  from m1 have p1: "s1 \<in> set (execution_steps d)"
    and min1: "\<forall>s \<in> set (execution_steps d).
         step_app_id s = appId \<and> step_status s = Pending \<longrightarrow> step_index s1 \<le> step_index s"
    by blast+
  from m2 have a2: "step_app_id s2 = appId" and pend2: "step_status s2 = Pending"
    and mem2: "s2 \<in> set (execution_steps (invocations nows req (snd (run_step_handler now req d))))"
    by blast+
  from run_step_handler_claim[OF req s1, of now] obtain st where
    st: "execution_steps (snd (run_step_handler now req d)) =
                 fst (updateStatus (step_id s1) st (execution_steps d))" "st \<noteq> Pending"
    unfolding updateStatus_fst by auto
  have "s2 \<in> set (execution_steps (snd (run_step_handler now req d)))"
    using mem2 pend2 by (rule invocations_pending_subset)
  then have "s2 \<in> set (fst (updateStatus (step_id s1) st (execution_steps d)))"
    by (simp only: st(1))
  from updateStatus_pending_subset[OF st(2) this pend2]
  have in2: "s2 \<in> set (execution_steps d)" and ne: "step_id s2 \<noteq> step_id s1" by blast+
  have le: "step_index s1 \<le> step_index s2" using min1 in2 a2 pend2 by blast
  have "step_index s1 \<noteq> step_index s2"
  proof
    assume e: "step_index s1 = step_index s2"
    from uniq p1 in2 have "operation_id s1 = Some oid \<and> operation_id s2 = Some oid \<and>
        step_index s1 = step_index s2 \<longrightarrow> step_id s1 = step_id s2" by blast
    then have "step_id s1 = step_id s2" using op e by blast
    then show False using ne by simp
  qed
  then show ?thesis using le by simp
qed

text \<open>
  Claim C3, amended. Every invocation of run-one-step claims a pending step of the app whose
  index is lowest among the pending steps of the app: it changes the status of the row with
  that identifier and of no other row, executes the step and leaves it applied or failed (or
  leaves it in processing, not executed, when the app has no user); when the app has no
  pending step it answers done and changes nothing. Among steps of equal index the one
  claimed is the first the table returns, not the one created first: the query orders by
  \<^verbatim>\<open>step_index\<close> alone. Consequently, within one operation whose step indices are
  unique, two steps claimed by successive invocations, however many other invocations lie
  between them, are claimed and executed in strictly increasing index order. The step an
  invocation claims is the row its query (\<open>selectNextPending\<close>) returns.
\<close>

theorem run_step_claims_lowest_index_in_order:
  assumes "run_method req = ''POST''" "run_app_id req = Some appId"
  shows "((\<forall>s \<in> set (execution_steps d). \<not> (step_app_id s = appId \<and> step_status s = Pending)) \<longrightarrow>
            run_step_handler now req d = (RunDone, d)) \<and>
         ((\<exists>s \<in> set (execution_steps d). step_app_id s = appId \<and> step_status s = Pending) \<longrightarrow>
            (\<exists>step st.
               selectNextPending appId (execution_steps d) = Some step \<and>
               step \<in> set (execution_steps d) \<and> step_app_id step = appId \<and> step_status step = Pending \<and>
               (\<forall>s \<in> set (execution_steps d).
                  step_app_id s = appId \<and> step_status s = Pending \<longrightarrow> step_index step \<le> step_index s) \<and>
               execution_steps (snd (run_step_handler now req d)) =
                 map (\<lambda>s. if step_id s = step_id step then s\<lparr>step_status := st\<rparr> else s)
                   (execution_steps d) \<and>
               (fst (run_step_handler now req d) = RunApplied step \<and> st = Applied \<or>
                (\<exists>e. fst (run_step_handler now req d) = RunError 500 (StepExecutionFailed e)) \<and> st = Failed \<or>
                fst (run_step_handler now req d) = RunError 500 NoUserId \<and> st = Processing))) \<and>
         (\<forall>s1 s2 oid nows.
            selectNextPending appId (execution_steps d) = Some s1 \<and>
            selectNextPending appId
              (execution_steps (invocations nows req (snd (run_step_handler now req d)))) = Some s2 \<and>
            operation_id s1 = Some oid \<and> operation_id s2 = Some oid \<and>
            (\<forall>a \<in> set (execution_steps d). \<forall>b \<in> set (execution_steps d).
               operation_id a = Some oid \<and> operation_id b = Some oid \<and> step_index a = step_index b
               \<longrightarrow> step_id a = step_id b)
            \<longrightarrow> step_index s1 < step_index s2)"
proof (intro conjI)
  show "(\<forall>s \<in> set (execution_steps d). \<not> (step_app_id s = appId \<and> step_status s = Pending)) \<longrightarrow>
            run_step_handler now req d = (RunDone, d)"
    using run_step_handler_done[OF assms] by blast
next
  show "(\<exists>s \<in> set (execution_steps d). step_app_id s = appId \<and> step_status s = Pending) \<longrightarrow>
            (\<exists>step st.
               selectNextPending appId (execution_steps d) = Some step \<and>
               step \<in> set (execution_steps d) \<and> step_app_id step = appId \<and> step_status step = Pending \<and>
               (\<forall>s \<in> set (execution_steps d).
                  step_app_id s = appId \<and> step_status s = Pending \<longrightarrow> step_index step \<le> step_index s) \<and>
               execution_steps (snd (run_step_handler now req d)) =
                 map (\<lambda>s. if step_id s = step_id step then s\<lparr>step_status := st\<rparr> else s)
                   (execution_steps d) \<and>
               (fst (run_step_handler now req d) = RunApplied step \<and> st = Applied \<or>
                (\<exists>e. fst (run_step_handler now req d) = RunError 500 (StepExecutionFailed e)) \<and> st = Failed \<or>
                fst (run_step_handler now req d) = RunError 500 NoUserId \<and> st = Processing))"
  proof
    assume ex: "\<exists>s \<in> set (execution_steps d). step_app_id s = appId \<and> step_status s = Pending"
    have "selectNextPending appId (execution_steps d) \<noteq> None"
      using ex by (simp only: selectNextPending_None) blast
    then obtain step where sel: "selectNextPending appId (execution_steps d) = Some step" by blast
    note m = selectNextPending_Some[OF sel]
    from run_step_handler_claim[OF assms sel, of now] obtain st where
      st: "execution_steps (snd (run_step_handler now req d)) =
                 map (\<lambda>s. if step_id s = step_id step then s\<lparr>step_status := st\<rparr> else s)
                   (execution_steps d) \<and>
              (fst (run_step_handler now req d) = RunApplied step \<and> st = Applied \<or>
               (\<exists>e. fst (run_step_handler now req d) = RunError 500 (StepExecutionFailed e)) \<and> st = Failed \<or>
               fst (run_step_handler now req d) = RunError 500 NoUserId \<and> st = Processing)"
      by blast
    show "\<exists>step st.
               selectNextPending appId (execution_steps d) = Some step \<and>
               step \<in> set (execution_steps d) \<and> step_app_id step = appId \<and> step_status step = Pending \<and>
               (\<forall>s \<in> set (execution_steps d).
                  step_app_id s = appId \<and> step_status s = Pending \<longrightarrow> step_index step \<le> step_index s) \<and>
               execution_steps (snd (run_step_handler now req d)) =
                 map (\<lambda>s. if step_id s = step_id step then s\<lparr>step_status := st\<rparr> else s)
                   (execution_steps d) \<and>
               (fst (run_step_handler now req d) = RunApplied step \<and> st = Applied \<or>
                (\<exists>e. fst (run_step_handler now req d) = RunError 500 (StepExecutionFailed e)) \<and> st = Failed \<or>
                fst (run_step_handler now req d) = RunError 500 NoUserId \<and> st = Processing)"
      apply (rule exI[of _ step])
      apply (rule exI[of _ st])
      apply (intro conjI)
            apply (rule sel)
           apply (rule m[THEN conjunct1])
          apply (rule m[THEN conjunct2, THEN conjunct1])
         apply (rule m[THEN conjunct2, THEN conjunct2, THEN conjunct1])
        apply (rule m[THEN conjunct2, THEN conjunct2, THEN conjunct2])
       apply (rule st[THEN conjunct1])
      apply (rule st[THEN conjunct2])
      done
  qed
next
  show "\<forall>s1 s2 oid nows.
            selectNextPending appId (execution_steps d) = Some s1 \<and>
            selectNextPending appId
              (execution_steps (invocations nows req (snd (run_step_handler now req d)))) = Some s2 \<and>
            operation_id s1 = Some oid \<and> operation_id s2 = Some oid \<and>
            (\<forall>a \<in> set (execution_steps d). \<forall>b \<in> set (execution_steps d).
               operation_id a = Some oid \<and> operation_id b = Some oid \<and> step_index a = step_index b
               \<longrightarrow> step_id a = step_id b)
            \<longrightarrow> step_index s1 < step_index s2"
  proof (intro allI impI, elim conjE)
    fix s1 s2 oid nows
    assume "selectNextPending appId (execution_steps d) = Some s1"
      "selectNextPending appId
              (execution_steps (invocations nows req (snd (run_step_handler now req d)))) = Some s2"
      "operation_id s1 = Some oid" "operation_id s2 = Some oid"
      "\<forall>a \<in> set (execution_steps d). \<forall>b \<in> set (execution_steps d).
               operation_id a = Some oid \<and> operation_id b = Some oid \<and> step_index a = step_index b
               \<longrightarrow> step_id a = step_id b"
    then show "step_index s1 < step_index s2"
      by (rule claimed_in_increasing_order[OF assms])
  qed
qed

theorem run_step_claims_lowest_index_in_order_witness:
  "fst (run_step_handler 3 runRequest interleavedDb) = RunApplied expandedStep0 \<and>
   fst (run_step_handler 4 runRequest (snd (run_step_handler 3 runRequest interleavedDb))) =
     RunApplied tieLater \<and>
   fst (run_step_handler 5 runRequest (invocations [4] runRequest (snd (run_step_handler 3 runRequest interleavedDb)))) =
     RunApplied expandedStep1 \<and>
   run_step_handler 6 runRequest (invocations [4, 5] runRequest (snd (run_step_handler 3 runRequest interleavedDb))) =
     (RunDone, invocations [4, 5] runRequest (snd (run_step_handler 3 runRequest interleavedDb))) \<and>
   map step_status (execution_steps (snd (run_step_handler 3 runRequest interleavedDb))) =
     [Applied, Pending, Pending] \<and>
   step_index expandedStep0 < step_index expandedStep1"
proof -
  have q: "run_method runRequest = ''POST''" "run_app_id runRequest = Some 1"
    by (simp_all add: runRequest_def)
  let ?d3 = "invocations [4, 5] runRequest (snd (run_step_handler 3 runRequest interleavedDb))"
  note t = run_step_claims_lowest_index_in_order[OF q, of interleavedDb 3]
  note t3 = run_step_claims_lowest_index_in_order[OF q, of ?d3 6]
  have s1: "selectNextPending 1 (execution_steps interleavedDb) = Some expandedStep0" by code_simp
  have s2: "selectNextPending 1
              (execution_steps (invocations [4] runRequest (snd (run_step_handler 3 runRequest interleavedDb))))
            = Some expandedStep1" by code_simp
  have u: "\<forall>a \<in> set (execution_steps interleavedDb). \<forall>b \<in> set (execution_steps interleavedDb).
       operation_id a = Some 10 \<and> operation_id b = Some 10 \<and> step_index a = step_index b
       \<longrightarrow> step_id a = step_id b"
    by (simp add: interleavedDb_def tieDb_def exampleDb_def expandedStep0_def expandedStep1_def tieLater_def)
  have o: "operation_id expandedStep0 = Some 10" "operation_id expandedStep1 = Some 10"
    by (simp_all add: expandedStep0_def expandedStep1_def)
  have lt: "step_index expandedStep0 < step_index expandedStep1"
    using t[THEN conjunct2, THEN conjunct2, rule_format, of expandedStep0 "[4]" expandedStep1 10]
      s1 s2 o u by blast
  have nopend: "\<forall>s \<in> set (execution_steps ?d3). \<not> (step_app_id s = 1 \<and> step_status s = Pending)"
    by code_simp
  have fin: "run_step_handler 6 runRequest ?d3 = (RunDone, ?d3)"
    using t3[THEN conjunct1] nopend by blast
  have r1: "fst (run_step_handler 3 runRequest interleavedDb) = RunApplied expandedStep0" by code_simp
  have r2: "fst (run_step_handler 4 runRequest (snd (run_step_handler 3 runRequest interleavedDb))) =
     RunApplied tieLater" by code_simp
  have r3: "fst (run_step_handler 5 runRequest (invocations [4] runRequest (snd (run_step_handler 3 runRequest interleavedDb)))) =
     RunApplied expandedStep1" by code_simp
  have st: "map step_status (execution_steps (snd (run_step_handler 3 runRequest interleavedDb))) =
     [Applied, Pending, Pending]" by code_simp
  show ?thesis using r1 r2 r3 fin st lt by simp
qed

text \<open>
  Claim C3 as stated fails: with two pending steps of one app at index 0, the route claims
  and executes the one created later when the table returns it first.
\<close>

theorem run_step_tie_not_by_creation_time:
  "selectNextPending 1 (execution_steps tieDb) = Some tieLater \<and>
   fst (run_step_handler 3 runRequest tieDb) = RunApplied tieLater \<and>
   expandedStep0 \<in> set (execution_steps tieDb) \<and>
   step_app_id expandedStep0 = 1 \<and> step_status expandedStep0 = Pending \<and>
   step_index expandedStep0 = step_index tieLater \<and>
   created_at expandedStep0 < created_at tieLater"
  by code_simp

section \<open>Run Loop: the claiming update\<close>

lemma runClaimed_no_rows:
  assumes "\<forall>s \<in> set (execution_steps d). step_id s \<noteq> step_id step"
  shows "runClaimed now appId step d = (RunError 500 MarkProcessingNoRows, d)"
proof -
  have "snd (updateStatus (step_id step) Processing (execution_steps d)) = []"
    using assms by (simp add: updateStatus_rows_empty)
  moreover have "fst (updateStatus (step_id step) Processing (execution_steps d)) = execution_steps d"
    using assms by (rule updateStatus_no_rows)
  ultimately show ?thesis
    by (simp add: runClaimed_def Let_def split_def)
qed

text \<open>
  Claim C2, amended. The update that moves the claimed step to processing is a single update
  addressed by the identifier of the step: it changes no row with another identifier. The step
  an invocation claims is the one it has just read as pending, and when nothing changes the
  table between the read and the update the update affects that row, so the invocation does
  not report zero rows. When the update affects zero rows (the table at the time of the update
  has no row with the identifier), the invocation answers with the error 500
  \<^verbatim>\<open>Failed to mark step as processing: No rows updated\<close>, executes nothing and leaves
  every table as it was; it does not select another pending step.
\<close>

theorem claim_update_addressed_by_id:
  assumes "run_method req = ''POST''" "run_app_id req = Some appId"
  shows "filter (\<lambda>s. step_id s \<noteq> sid) (fst (updateStatus sid Processing steps)) =
           filter (\<lambda>s. step_id s \<noteq> sid) steps \<and>
         (selectNextPending appId (execution_steps d) = Some step \<longrightarrow>
            step \<in> set (execution_steps d) \<and> step_status step = Pending \<and>
            run_step_handler now req d = runClaimed now appId step d \<and>
            fst (run_step_handler now req d) \<noteq> RunError 500 MarkProcessingNoRows \<and>
            filter (\<lambda>s. step_id s \<noteq> step_id step) (execution_steps (snd (run_step_handler now req d))) =
              filter (\<lambda>s. step_id s \<noteq> step_id step) (execution_steps d)) \<and>
         ((\<forall>s \<in> set (execution_steps d). step_id s \<noteq> step_id stale) \<longrightarrow>
            runClaimed now appId stale d = (RunError 500 MarkProcessingNoRows, d))"
proof -
  have A: "filter (\<lambda>s. step_id s \<noteq> sid) (fst (updateStatus sid Processing steps)) =
           filter (\<lambda>s. step_id s \<noteq> sid) steps"
    by (rule updateStatus_others)
  have B: "step \<in> set (execution_steps d) \<and> step_status step = Pending \<and>
            run_step_handler now req d = runClaimed now appId step d \<and>
            fst (run_step_handler now req d) \<noteq> RunError 500 MarkProcessingNoRows \<and>
            filter (\<lambda>s. step_id s \<noteq> step_id step) (execution_steps (snd (run_step_handler now req d))) =
              filter (\<lambda>s. step_id s \<noteq> step_id step) (execution_steps d)"
    if sel: "selectNextPending appId (execution_steps d) = Some step"
  proof -
    note m = selectNextPending_Some[OF sel]
    have b1: "step \<in> set (execution_steps d)" and b2: "step_status step = Pending"
      using m by simp_all
    have b3: "run_step_handler now req d = runClaimed now appId step d"
      using assms sel by (simp add: run_step_handler_def)
    from run_step_handler_claim[OF assms sel, of now] obtain st where
      st: "execution_steps (snd (run_step_handler now req d)) =
             map (\<lambda>s. if step_id s = step_id step then s\<lparr>step_status := st\<rparr> else s) (execution_steps d)"
      and resp: "fst (run_step_handler now req d) = RunApplied step \<and> st = Applied \<or>
               (\<exists>e. fst (run_step_handler now req d) = RunError 500 (StepExecutionFailed e)) \<and> st = Failed \<or>
               fst (run_step_handler now req d) = RunError 500 NoUserId \<and> st = Processing"
      by blast
    have b4: "fst (run_step_handler now req d) \<noteq> RunError 500 MarkProcessingNoRows"
      using resp by auto
    have b5: "filter (\<lambda>s. step_id s \<noteq> step_id step) (execution_steps (snd (run_step_handler now req d))) =
              filter (\<lambda>s. step_id s \<noteq> step_id step) (execution_steps d)"
      unfolding st using updateStatus_others[of "step_id step" st "execution_steps d"]
      by (simp only: updateStatus_fst)
    show ?thesis using b1 b2 b3 b4 b5 by (intro conjI)
  qed
  have C: "runClaimed now appId stale d = (RunError 500 MarkProcessingNoRows, d)"
    if "\<forall>s \<in> set (execution_steps d). step_id s \<noteq> step_id stale"
    using that by (rule runClaimed_no_rows)
  show ?thesis using A B C by blast
qed

theorem claim_update_addressed_by_id_witness:
  "selectNextPending 1 (execution_steps expandedDb) = Some expandedStep0 \<and>
   step_status expandedStep0 = Pending \<and>
   run_step_handler 2 runRequest expandedDb = runClaimed 2 1 expandedStep0 expandedDb \<and>
   fst (run_step_handler 2 runRequest expandedDb) = RunApplied expandedStep0 \<and>
   filter (\<lambda>s. step_id s \<noteq> 100) (execution_steps (snd (run_step_handler 2 runRequest expandedDb))) =
     [expandedStep1] \<and>
   selectNextPending 1 (execution_steps goneDb) = Some expandedStep1 \<and>
   runClaimed 3 1 expandedStep0 goneDb = (RunError 500 MarkProcessingNoRows, goneDb)"
proof -
  have q: "run_method runRequest = ''POST''" "run_app_id runRequest = Some 1"
    by (simp_all add: runRequest_def)
  note t = claim_update_addressed_by_id[OF q, where d = expandedDb and step = expandedStep0 and now = 2,
      THEN conjunct2, THEN conjunct1]
  note t' = claim_update_addressed_by_id[OF q, where d = goneDb and stale = expandedStep0 and now = 3,
      THEN conjunct2, THEN conjunct2]
  have s: "selectNextPending 1 (execution_steps expandedDb) = Some expandedStep0" by code_simp
  have g: "\<forall>s \<in> set (execution_steps goneDb). step_id s \<noteq> step_id expandedStep0"
    by (simp add: goneDb_def expandedStep0_def expandedStep1_def)
  have r1: "step_status expandedStep0 = Pending \<and>
      run_step_handler 2 runRequest expandedDb = runClaimed 2 1 expandedStep0 expandedDb \<and>
      filter (\<lambda>s. step_id s \<noteq> step_id expandedStep0)
        (execution_steps (snd (run_step_handler 2 runRequest expandedDb))) =
      filter (\<lambda>s. step_id s \<noteq> step_id expandedStep0) (execution_steps expandedDb)"
    using t s by blast
  have i: "step_id expandedStep0 = 100" by (simp add: expandedStep0_def)
  have f: "filter (\<lambda>s. step_id s \<noteq> 100) (execution_steps expandedDb) = [expandedStep1]"
    by (simp add: expandedDb_def expandedStep0_def expandedStep1_def)
  have r2: "runClaimed 3 1 expandedStep0 goneDb = (RunError 500 MarkProcessingNoRows, goneDb)"
    using t' g by blast
  have r3: "fst (run_step_handler 2 runRequest expandedDb) = RunApplied expandedStep0" by code_simp
  have r4: "selectNextPending 1 (execution_steps goneDb) = Some expandedStep1" by code_simp
  have r5: "filter (\<lambda>s. step_id s \<noteq> 100) (execution_steps (snd (run_step_handler 2 runRequest expandedDb))) =
     [expandedStep1]"
    using r1[THEN conjunct2, THEN conjunct2] f unfolding i by (rule trans)
  note r1a = r1[THEN conjunct1] and r1b = r1[THEN conjunct2, THEN conjunct1]
  show ?thesis by (intro conjI s r1a r1b r3 r5 r4 r2)
qed

text \<open>
  Claim C2 as stated fails. The update is not conditional on the status: a step that another
  caller has applied since it was read is set to processing again and executed a second
  time. And when the update affects no row, the invocation answers with an error although
  another pending step of the app exists; that step stays pending.
\<close>

theorem claim_not_conditional_on_pending:
  "selectNextPending 1 (execution_steps expandedDb) = Some expandedStep0 \<and>
   map step_status (execution_steps staleDb) = [Applied, Pending] \<and>
   map step_status (fst (updateStatus (step_id expandedStep0) Processing (execution_steps staleDb)))
     = [Processing, Pending] \<and>
   map step_status (snd (updateStatus (step_id expandedStep0) Processing (execution_steps staleDb)))
     = [Processing] \<and>
   fst (runClaimed 3 1 expandedStep0 staleDb) =
     RunError 500 (StepExecutionFailed (HandlerFailed (PageAlreadyExists (Some (JStr ''orders''))))) \<and>
   map step_status (execution_steps (snd (runClaimed 3 1 expandedStep0 staleDb))) = [Failed, Pending] \<and>
   fst (runClaimed 3 1 expandedStep0 goneDb) = RunError 500 MarkProcessingNoRows \<and>
   selectNextPending 1 (execution_steps goneDb) = Some expandedStep1 \<and>
   map step_status (execution_steps (snd (runClaimed 3 1 expandedStep0 goneDb))) = [Pending]"
  by code_simp

section \<open>Run Loop: outcome of the claimed step\<close>

lemma run_step_handler_outcome:
  assumes "run_method req = ''POST''" "run_app_id req = Some appId"
      and "selectNextPending appId (execution_steps d) = Some step"
      and "single (filter (\<lambda>a. app_id a = appId) (apps d)) = Some app" "app_user_id app = Some u"
      and "executeStep now step appId (lookupBuildRequestId step (Some app) (operations_log d)) (Some u)
             (d\<lparr>execution_steps := fst (updateStatus (step_id step) Processing (execution_steps d))\<rparr>)
           = (r, d2)"
  shows "run_step_handler now req d =
           (case r of
              Inl e \<Rightarrow> (RunError 500 (StepExecutionFailed e),
                        d\<lparr>execution_steps :=
                            map (\<lambda>s. if step_id s = step_id step then s\<lparr>step_status := Failed\<rparr> else s)
                              (execution_steps d),
                          app_spec := app_spec d2\<rparr>)
            | Inr res \<Rightarrow> (RunApplied step,
                          d\<lparr>execution_steps :=
                              map (\<lambda>s. if step_id s = step_id step then s\<lparr>step_status := Applied\<rparr> else s)
                                (execution_steps d),
                            app_spec := app_spec d2\<rparr>))"
proof -
  have h: "run_step_handler now req d = runClaimed now appId step d"
    using assms(1,2,3) by (simp add: run_step_handler_def)
  have "step \<in> set (execution_steps d)" using selectNextPending_Some[OF assms(3)] by simp
  then have rows: "\<exists>s \<in> set (execution_steps d). step_id s = step_id step" by blast
  show ?thesis
    unfolding h runClaimed_outcome[OF rows assms(4,5,6)] updateStatus_fst by (rule refl)
qed

lemma run_step_handler_resolved:
  assumes "run_method req = ''POST''" "run_app_id req = Some appId"
      and "selectNextPending appId (execution_steps d) = Some step"
      and "single (filter (\<lambda>a. app_id a = appId) (apps d)) = Some app" "app_user_id app = Some u"
      and "resolveStepData step (operations_log d) = Inr (ty, payload)" "truthy ty"
      and "executeStepHandler now appId (JObj (spread_into [(''type'', the ty)] (Some payload)))
             (lookupBuildRequestId step (Some app) (operations_log d)) (Some u) (app_spec d)
           = (result, spec')"
  shows "run_step_handler now req d =
           (case result of
              Failure e \<Rightarrow>
                (RunError 500 (StepExecutionFailed (HandlerFailed e)),
                 d\<lparr>execution_steps :=
                     map (\<lambda>s. if step_id s = step_id step then s\<lparr>step_status := Failed\<rparr> else s)
                       (execution_steps d),
                   app_spec := spec'\<rparr>)
            | Success r \<Rightarrow>
                (RunApplied step,
                 d\<lparr>execution_steps :=
                     map (\<lambda>s. if step_id s = step_id step then s\<lparr>step_status := Applied\<rparr> else s)
                       (execution_steps d),
                   app_spec := spec'\<rparr>))"
proof -
  let ?sid = "step_id step"
  let ?d1 = "d\<lparr>execution_steps := fst (updateStatus ?sid Processing (execution_steps d))\<rparr>"
  let ?b = "lookupBuildRequestId step (Some app) (operations_log d)"
  have res: "resolveStepData step (operations_log ?d1) = Inr (ty, payload)" using assms(6) by simp
  have ex: "executeStep now step appId ?b (Some u) ?d1 =
              (case result of Failure e \<Rightarrow> Inl (HandlerFailed e) | Success r \<Rightarrow> Inr (Success r),
               ?d1\<lparr>app_spec := spec'\<rparr>)"
    using executeStep_handler[OF res assms(7), of now appId ?b "Some u"] assms(8)
    by (cases result) simp_all
  show ?thesis
    using run_step_handler_outcome[OF assms(1,2,3,4,5) ex] by (cases result) simp_all
qed

text \<open>
  Claim C4, amended. When the Executor reports failure for the claimed step, run-one-step
  sets the status of that step to failed and returns the error of the Executor in its
  response 500; when the Executor succeeds, it sets the status to applied and returns the
  step. The status is the only column of the step that is written:
  \<^verbatim>\<open>error_message\<close> is neither recorded on failure nor cleared on success, and no
  other step changes.
\<close>

theorem run_step_outcome_sets_status_only:
  assumes "run_method req = ''POST''" "run_app_id req = Some appId"
      and "selectNextPending appId (execution_steps d) = Some step"
      and "single (filter (\<lambda>a. app_id a = appId) (apps d)) = Some app" "app_user_id app = Some u"
      and "resolveStepData step (operations_log d) = Inr (ty, payload)" "truthy ty"
      and "executeStepHandler now appId (JObj (spread_into [(''type'', the ty)] (Some payload)))
             (lookupBuildRequestId step (Some app) (operations_log d)) (Some u) (app_spec d)
           = (result, spec')"
  shows "run_step_handler now req d =
           (case result of
              Failure e \<Rightarrow>
                (RunError 500 (StepExecutionFailed (HandlerFailed e)),
                 d\<lparr>execution_steps :=
                     map (\<lambda>s. if step_id s = step_id step then s\<lparr>step_status := Failed\<rparr> else s)
                       (execution_steps d),
                   app_spec := spec'\<rparr>)
            | Success r \<Rightarrow>
                (RunApplied step,
                 d\<lparr>execution_steps :=
                     map (\<lambda>s. if step_id s = step_id step then s\<lparr>step_status := Applied\<rparr> else s)
                       (execution_steps d),
                   app_spec := spec'\<rparr>)) \<and>
         map error_message (execution_steps (snd (run_step_handler now req d))) =
           map error_message (execution_steps d)"
proof -
  let ?sid = "step_id step"
  let ?d1 = "d\<lparr>execution_steps := fst (updateStatus ?sid Processing (execution_steps d))\<rparr>"
  let ?b = "lookupBuildRequestId step (Some app) (operations_log d)"
  have res: "resolveStepData step (operations_log ?d1) = Inr (ty, payload)" using assms(6) by simp
  have ex: "executeStep now step appId ?b (Some u) ?d1 =
              (case result of Failure e \<Rightarrow> Inl (HandlerFailed e) | Success r \<Rightarrow> Inr (Success r),
               ?d1\<lparr>app_spec := spec'\<rparr>)"
    using executeStep_handler[OF res assms(7), of now appId ?b "Some u"] assms(8)
    by (cases result) simp_all
  have main: "run_step_handler now req d =
           (case result of
              Failure e \<Rightarrow>
                (RunError 500 (StepExecutionFailed (HandlerFailed e)),
                 d\<lparr>execution_steps :=
                     map (\<lambda>s. if step_id s = step_id step then s\<lparr>step_status := Failed\<rparr> else s)
                       (execution_steps d),
                   app_spec := spec'\<rparr>)
            | Success r \<Rightarrow>
                (RunApplied step,
                 d\<lparr>execution_steps :=
                     map (\<lambda>s. if step_id s = step_id step then s\<lparr>step_status := Applied\<rparr> else s)
                       (execution_steps d),
                   app_spec := spec'\<rparr>))"
    using run_step_handler_outcome[OF assms(1,2,3,4,5) ex] by (cases result) simp_all
  have em: "map error_message (execution_steps (snd (run_step_handler now req d))) =
              map error_message (execution_steps d)"
    unfolding main using updateStatus_error_message[of ?sid _ "execution_steps d"]
    by (cases result) (simp_all add: updateStatus_fst)
  show ?thesis using main em by blast
qed

theorem run_step_outcome_sets_status_only_witness:
  "run_method runRequest = ''POST'' \<and>
   selectNextPending 1 (execution_steps retryDb) =
     Some (expandedStep0\<lparr>error_message := Some ''Page with slug orders already exists''\<rparr>) \<and>
   fst (run_step_handler 3 runRequest retryDb) =
     RunApplied (expandedStep0\<lparr>error_message := Some ''Page with slug orders already exists''\<rparr>) \<and>
   map step_status (execution_steps (snd (run_step_handler 3 runRequest retryDb))) = [Applied, Pending] \<and>
   map error_message (execution_steps (snd (run_step_handler 3 runRequest retryDb))) =
     map error_message (execution_steps retryDb)"
proof -
  let ?step = "expandedStep0\<lparr>error_message := Some ''Page with slug orders already exists''\<rparr>"
  let ?app = "\<lparr>app_id = 1, app_user_id = Some 5, app_build_request_id = None\<rparr>"
  have q: "run_method runRequest = ''POST''" "run_app_id runRequest = Some 1"
    by (simp_all add: runRequest_def)
  have a3: "selectNextPending 1 (execution_steps retryDb) = Some ?step" by code_simp
  have a4: "single (filter (\<lambda>a. app_id a = 1) (apps retryDb)) = Some ?app"
    by (simp add: retryDb_def expandedDb_def exampleDb_def)
  have a5: "app_user_id ?app = Some 5" by simp
  have a6: "resolveStepData ?step (operations_log retryDb) = Inr (Some (JStr ''create_page''), ordersPageStep)"
    by code_simp
  have a7: "truthy (Some (JStr ''create_page''))" by simp
  obtain result spec' where a8: "executeStepHandler 3 1
        (JObj (spread_into [(''type'', the (Some (JStr ''create_page'')))] (Some ordersPageStep)))
        (lookupBuildRequestId ?step (Some ?app) (operations_log retryDb)) (Some 5) (app_spec retryDb)
        = (result, spec')"
    by (cases "executeStepHandler 3 1
        (JObj (spread_into [(''type'', the (Some (JStr ''create_page'')))] (Some ordersPageStep)))
        (lookupBuildRequestId ?step (Some ?app) (operations_log retryDb)) (Some 5) (app_spec retryDb)")
  note t = run_step_outcome_sets_status_only[OF q a3 a4 a5 a6 a7 a8]
  have "map error_message (execution_steps (snd (run_step_handler 3 runRequest retryDb))) =
     map error_message (execution_steps retryDb)"
    by (rule t[THEN conjunct2])
  moreover have "fst (run_step_handler 3 runRequest retryDb) = RunApplied ?step" by code_simp
  moreover have "map step_status (execution_steps (snd (run_step_handler 3 runRequest retryDb))) = [Applied, Pending]"
    by code_simp
  ultimately show ?thesis using q(1) a3 by simp
qed

text \<open>
  Claim C4 as stated fails: a failure of the Executor leaves \<^verbatim>\<open>error_message\<close> of
  the step empty, and a success leaves the message of an earlier failure in place.
\<close>

theorem run_step_error_message_not_written:
  "selectNextPending 1 (execution_steps conflictDb) = Some expandedStep0 \<and>
   fst (run_step_handler 3 runRequest conflictDb) =
     RunError 500 (StepExecutionFailed (HandlerFailed (PageAlreadyExists (Some (JStr ''orders''))))) \<and>
   map step_status (execution_steps (snd (run_step_handler 3 runRequest conflictDb))) = [Failed, Pending] \<and>
   map error_message (execution_steps (snd (run_step_handler 3 runRequest conflictDb))) = [None, None] \<and>
   map step_status (execution_steps retryDb) = [Pending, Pending] \<and>
   map error_message (execution_steps retryDb) = [Some ''Page with slug orders already exists'', None] \<and>
   fst (run_step_handler 3 runRequest retryDb) =
     RunApplied (expandedStep0\<lparr>error_message := Some ''Page with slug orders already exists''\<rparr>) \<and>
   map step_status (execution_steps (snd (run_step_handler 3 runRequest retryDb))) = [Applied, Pending] \<and>
   map error_message (execution_steps (snd (run_step_handler 3 runRequest retryDb))) =
     [Some ''Page with slug orders already exists'', None]"
  by code_simp

section \<open>Run Loop: payload of the claimed step\<close>

lemma executeStep_unresolved:
  "resolveStepData step (operations_log d) = Inl e \<Longrightarrow> executeStep now step appId b u d = (Inl e, d)"
  by (simp add: executeStep_def)

lemma resolve_linked:
  assumes "operation_id step = Some oid"
      and "single (filter (\<lambda>operation. op_id operation = oid) ops) = Some operation"
      and "operations operation = JArr ds"
  shows "(if 0 \<le> step_index step \<and> nat (step_index step) < length ds \<and>
             truthy (Some (ds ! nat (step_index step)))
          then resolveStepData step ops =
                 Inr (js_or (get_prop (ds ! nat (step_index step)) ''type'')
                            (js_or (Some (type_column step)) None),
                      ds ! nat (step_index step))
          else resolveStepData step ops = Inl (StepIndexNotFound (step_index step) (length ds)))"
  using assms by (simp add: resolveStepData_def Let_def nth_opt_def)

lemma resolve_orphan:
  assumes "operation_id step = None"
  shows "resolveStepData step ops =
           Inr (js_or (Some (type_column step)) None,
                JObj [(''type'', type_column step), (''target'', target step),
                      (''error_message'', json_of_text (error_message step)),
                      (''slug'', target step)])"
  using assms by (simp add: resolveStepData_def Let_def ownStepData_def stepFields_def js_or_def)

text \<open>
  Claim C9. For a claimed step with an operation id, run-one-step fetches the owning
  operation and takes as payload the descriptor at position \<^verbatim>\<open>step_index\<close> of its
  array of descriptors; it fails when there is no descriptor at that position (or a falsy
  one), and when the operation cannot be fetched. For a claimed step without operation id
  the payload is made of the step's own stored fields: the row without its metadata columns,
  with \<^verbatim>\<open>slug\<close> set to the target. The Executor receives that payload with the
  resolved type, and its result decides the answer of the route; a failure to resolve the
  payload marks the step failed with a response 500.
\<close>

theorem run_step_payload_resolution:
  "(operation_id step = Some oid \<and>
    single (filter (\<lambda>operation. op_id operation = oid) ops) = Some operation \<and>
    operations operation = JArr ds \<longrightarrow>
      (if 0 \<le> step_index step \<and> nat (step_index step) < length ds \<and>
          truthy (Some (ds ! nat (step_index step)))
       then resolveStepData step ops =
              Inr (js_or (get_prop (ds ! nat (step_index step)) ''type'')
                         (js_or (Some (type_column step)) None),
                   ds ! nat (step_index step))
       else resolveStepData step ops = Inl (StepIndexNotFound (step_index step) (length ds)))) \<and>
   (operation_id step = Some oid \<and>
    single (filter (\<lambda>operation. op_id operation = oid) ops) = None \<longrightarrow>
      resolveStepData step ops = Inl (FetchOperationFailed oid)) \<and>
   (operation_id step = None \<longrightarrow>
      resolveStepData step ops =
        Inr (js_or (Some (type_column step)) None,
             JObj [(''type'', type_column step), (''target'', target step),
                   (''error_message'', json_of_text (error_message step)),
                   (''slug'', target step)])) \<and>
   (resolveStepData step (operations_log d) = Inr (ty, payload) \<and> truthy ty \<longrightarrow>
      executeStep now step appId b u d =
        (case executeStepHandler now appId (JObj (spread_into [(''type'', the ty)] (Some payload)))
                b u (app_spec d) of
           (Failure e, spec') \<Rightarrow> (Inl (HandlerFailed e), d\<lparr>app_spec := spec'\<rparr>)
         | (Success r, spec') \<Rightarrow> (Inr (Success r), d\<lparr>app_spec := spec'\<rparr>))) \<and>
   (run_method req = ''POST'' \<and> run_app_id req = Some appId \<and>
    selectNextPending appId (execution_steps d) = Some step \<and>
    single (filter (\<lambda>a. app_id a = appId) (apps d)) = Some app \<and> app_user_id app = Some usr \<and>
    resolveStepData step (operations_log d) = Inr (ty, payload) \<and> truthy ty \<and>
    executeStepHandler now appId (JObj (spread_into [(''type'', the ty)] (Some payload)))
      (lookupBuildRequestId step (Some app) (operations_log d)) (Some usr) (app_spec d) = (result, spec')
    \<longrightarrow>
      run_step_handler now req d =
        (case result of
           Failure e \<Rightarrow>
             (RunError 500 (StepExecutionFailed (HandlerFailed e)),
              d\<lparr>execution_steps :=
                  map (\<lambda>s. if step_id s = step_id step then s\<lparr>step_status := Failed\<rparr> else s)
                    (execution_steps d),
                app_spec := spec'\<rparr>)
         | Success r \<Rightarrow>
             (RunApplied step,
              d\<lparr>execution_steps :=
                  map (\<lambda>s. if step_id s = step_id step then s\<lparr>step_status := Applied\<rparr> else s)
                    (execution_steps d),
                app_spec := spec'\<rparr>))) \<and>
   (run_method req = ''POST'' \<and> run_app_id req = Some appId \<and>
    selectNextPending appId (execution_steps d) = Some step \<and>
    single (filter (\<lambda>a. app_id a = appId) (apps d)) = Some app \<and> app_user_id app = Some usr \<and>
    resolveStepData step (operations_log d) = Inl err \<longrightarrow>
      run_step_handler now req d =
        (RunError 500 (StepExecutionFailed err),
         d\<lparr>execution_steps :=
             map (\<lambda>s. if step_id s = step_id step then s\<lparr>step_status := Failed\<rparr> else s)
               (execution_steps d)\<rparr>))"
proof (intro conjI impI)
  assume "operation_id step = Some oid \<and>
    single (filter (\<lambda>operation. op_id operation = oid) ops) = Some operation \<and>
    operations operation = JArr ds"
  then show "(if 0 \<le> step_index step \<and> nat (step_index step) < length ds \<and>
          truthy (Some (ds ! nat (step_index step)))
       then resolveStepData step ops =
              Inr (js_or (get_prop (ds ! nat (step_index step)) ''type'')
                         (js_or (Some (type_column step)) None),
                   ds ! nat (step_index step))
       else resolveStepData step ops = Inl (StepIndexNotFound (step_index step) (length ds)))"
    using resolve_linked[of step oid ops operation ds] by blast
next
  assume "operation_id step = Some oid \<and>
    single (filter (\<lambda>operation. op_id operation = oid) ops) = None"
  then show "resolveStepData step ops = Inl (FetchOperationFailed oid)"
    by (simp add: resolveStepData_def Let_def)
next
  assume "operation_id step = None"
  then show "resolveStepData step ops =
        Inr (js_or (Some (type_column step)) None,
             JObj [(''type'', type_column step), (''target'', target step),
                   (''error_message'', json_of_text (error_message step)),
                   (''slug'', target step)])"
    by (rule resolve_orphan)
next
  assume "resolveStepData step (operations_log d) = Inr (ty, payload) \<and> truthy ty"
  then show "executeStep now step appId b u d =
        (case executeStepHandler now appId (JObj (spread_into [(''type'', the ty)] (Some payload)))
                b u (app_spec d) of
           (Failure e, spec') \<Rightarrow> (Inl (HandlerFailed e), d\<lparr>app_spec := spec'\<rparr>)
         | (Success r, spec') \<Rightarrow> (Inr (Success r), d\<lparr>app_spec := spec'\<rparr>))"
    using executeStep_handler[of step d ty payload now appId b u] by blast
next
  assume h: "run_method req = ''POST'' \<and> run_app_id req = Some appId \<and>
    selectNextPending appId (execution_steps d) = Some step \<and>
    single (filter (\<lambda>a. app_id a = appId) (apps d)) = Some app \<and> app_user_id app = Some usr \<and>
    resolveStepData step (operations_log d) = Inr (ty, payload) \<and> truthy ty \<and>
    executeStepHandler now appId (JObj (spread_into [(''type'', the ty)] (Some payload)))
      (lookupBuildRequestId step (Some app) (operations_log d)) (Some usr) (app_spec d) = (result, spec')"
  from h have h1: "run_method req = ''POST''" and h2: "run_app_id req = Some appId"
    and h3: "selectNextPending appId (execution_steps d) = Some step"
    and h4: "single (filter (\<lambda>a. app_id a = appId) (apps d)) = Some app"
    and h5: "app_user_id app = Some usr"
    and h6: "resolveStepData step (operations_log d) = Inr (ty, payload)" and h7: "truthy ty"
    and h8: "executeStepHandler now appId (JObj (spread_into [(''type'', the ty)] (Some payload)))
      (lookupBuildRequestId step (Some app) (operations_log d)) (Some usr) (app_spec d) = (result, spec')"
    by blast+
  show "run_step_handler now req d =
        (case result of
           Failure e \<Rightarrow>
             (RunError 500 (StepExecutionFailed (HandlerFailed e)),
              d\<lparr>execution_steps :=
                  map (\<lambda>s. if step_id s = step_id step then s\<lparr>step_status := Failed\<rparr> else s)
                    (execution_steps d),
                app_spec := spec'\<rparr>)
         | Success r \<Rightarrow>
             (RunApplied step,
              d\<lparr>execution_steps :=
                  map (\<lambda>s. if step_id s = step_id step then s\<lparr>step_status := Applied\<rparr> else s)
                    (execution_steps d),
                app_spec := spec'\<rparr>))"
    by (rule run_step_handler_resolved[OF h1 h2 h3 h4 h5 h6 h7 h8])
next
  assume a: "run_method req = ''POST'' \<and> run_app_id req = Some appId \<and>
    selectNextPending appId (execution_steps d) = Some step \<and>
    single (filter (\<lambda>a. app_id a = appId) (apps d)) = Some app \<and> app_user_id app = Some usr \<and>
    resolveStepData step (operations_log d) = Inl err"
  let ?d1 = "d\<lparr>execution_steps := fst (updateStatus (step_id step) Processing (execution_steps d))\<rparr>"
  have res: "resolveStepData step (operations_log ?d1) = Inl err" using a by simp
  have ex: "executeStep now step appId (lookupBuildRequestId step (Some app) (operations_log d)) (Some usr) ?d1
              = (Inl err, ?d1)"
    by (rule executeStep_unresolved[OF res])
  from a have a1: "run_method req = ''POST''" and a2: "run_app_id req = Some appId"
    and a3: "selectNextPending appId (execution_steps d) = Some step"
    and a4: "single (filter (\<lambda>a. app_id a = appId) (apps d)) = Some app"
    and a5: "app_user_id app = Some usr" by blast+
  show "run_step_handler now req d =
        (RunError 500 (StepExecutionFailed err),
         d\<lparr>execution_steps :=
             map (\<lambda>s. if step_id s = step_id step then s\<lparr>step_status := Failed\<rparr> else s)
               (execution_steps d)\<rparr>)"
    using run_step_handler_outcome[OF a1 a2 a3 a4 a5 ex] by simp
qed

theorem run_step_payload_resolution_witness:
  "resolveStepData expandedStep1 (operations_log expandedDb) =
     Inr (Some (JStr ''create_model''), orderModelStep) \<and>
   resolveStepData orphanStep (operations_log exampleDb) =
     Inr (Some (JStr ''create_page''),
          JObj [(''type'', JStr ''create_page''), (''target'', JStr ''home''),
                (''error_message'', JNull), (''slug'', JStr ''home'')]) \<and>
   resolveStepData beyondStep (operations_log beyondDb) = Inl (StepIndexNotFound 2 2) \<and>
   run_step_handler 3 runRequest beyondDb =
     (RunError 500 (StepExecutionFailed (StepIndexNotFound 2 2)),
      beyondDb\<lparr>execution_steps := [beyondStep\<lparr>step_status := Failed\<rparr>]\<rparr>) \<and>
   fst (executeStep 3 expandedStep1 1 None (Some 5) expandedDb) =
     Inr (Success (JObj [(''modelName'', JStr ''Order''), (''fields'', JNum 1)]))"
proof -
  let ?app = "\<lparr>app_id = 1, app_user_id = Some 5, app_build_request_id = None\<rparr>"
  note t1 = run_step_payload_resolution[where step = expandedStep1 and oid = 10
      and ops = "operations_log expandedDb" and operation = exampleOperation
      and ds = "[ordersPageStep, orderModelStep]"]
  note t2 = run_step_payload_resolution[where step = orphanStep and ops = "operations_log exampleDb"]
  note t3 = run_step_payload_resolution[where step = beyondStep and oid = 10
      and ops = "operations_log beyondDb" and operation = exampleOperation
      and ds = "[ordersPageStep, orderModelStep]" and d = beyondDb and now = 3 and appId = 1
      and req = runRequest and app = "?app" and usr = 5 and err = "StepIndexNotFound 2 2"]
  have h1: "operation_id expandedStep1 = Some 10 \<and>
      single (filter (\<lambda>operation. op_id operation = 10) (operations_log expandedDb)) = Some exampleOperation \<and>
      operations exampleOperation = JArr [ordersPageStep, orderModelStep]"
    by (simp add: expandedStep1_def expandedDb_def exampleDb_def exampleOperation_def)
  have ty: "js_or (get_prop orderModelStep ''type'') (js_or (Some (type_column expandedStep1)) None)
              = Some (JStr ''create_model'')"
    by (simp add: orderModelStep_def js_or_def)
  have r1: "resolveStepData expandedStep1 (operations_log expandedDb) =
     Inr (Some (JStr ''create_model''), orderModelStep)"
    using t1[THEN conjunct1] h1 ty
    by (simp add: expandedStep1_def orderModelStep_def)
  have h2: "operation_id orphanStep = None" by (simp add: orphanStep_def)
  have r2: "resolveStepData orphanStep (operations_log exampleDb) =
     Inr (Some (JStr ''create_page''),
          JObj [(''type'', JStr ''create_page''), (''target'', JStr ''home''),
                (''error_message'', JNull), (''slug'', JStr ''home'')])"
    using t2[THEN conjunct2, THEN conjunct2, THEN conjunct1] h2
    by (simp add: orphanStep_def js_or_def)
  have h3: "operation_id beyondStep = Some 10 \<and>
      single (filter (\<lambda>operation. op_id operation = 10) (operations_log beyondDb)) = Some exampleOperation \<and>
      operations exampleOperation = JArr [ordersPageStep, orderModelStep]"
    by (simp add: beyondStep_def beyondDb_def expandedStep1_def expandedDb_def exampleDb_def
          exampleOperation_def)
  have r3: "resolveStepData beyondStep (operations_log beyondDb) = Inl (StepIndexNotFound 2 2)"
    using t3[THEN conjunct1] h3 by (simp add: beyondStep_def expandedStep1_def)
  have h4: "run_method runRequest = ''POST'' \<and> run_app_id runRequest = Some 1 \<and>
      selectNextPending 1 (execution_steps beyondDb) = Some beyondStep \<and>
      single (filter (\<lambda>a. app_id a = 1) (apps beyondDb)) = Some ?app \<and> app_user_id ?app = Some 5"
    by (simp add: runRequest_def beyondDb_def expandedDb_def exampleDb_def selectNextPending_def
          beyondStep_def expandedStep1_def)
  have r4: "run_step_handler 3 runRequest beyondDb =
     (RunError 500 (StepExecutionFailed (StepIndexNotFound 2 2)),
      beyondDb\<lparr>execution_steps := [beyondStep\<lparr>step_status := Failed\<rparr>]\<rparr>)"
    using t3[THEN conjunct2, THEN conjunct2, THEN conjunct2, THEN conjunct2, THEN conjunct2] h4 r3
    by (simp add: beyondDb_def)
  have r5: "fst (executeStep 3 expandedStep1 1 None (Some 5) expandedDb) =
     Inr (Success (JObj [(''modelName'', JStr ''Order''), (''fields'', JNum 1)]))"
    by code_simp
  show ?thesis using r1 r2 r3 r4 r5 by simp
qed

section \<open>Operations applied and version snapshots\<close>










end
